theory Spec2Isabelle
  imports
    Main
    "HOL-Library.Word"
    "HOL-Library.Char_ord"
    "HOL-Library.List_Lexorder"
begin

unbundle bit_operations_syntax

section \<open>Go values used by the virtual folder service\<close>

text \<open>
  A Go \<^verbatim>\<open>[]byte\<close> is a list of 8-bit words; the nil slice and the empty slice are both
  \<open>[]\<close> (no function below tells them apart). A Go \<^verbatim>\<open>string\<close> is a list of
  characters (bytes). \<^verbatim>\<open>int64\<close> sizes, sequence numbers and \<^verbatim>\<open>time.Time\<close> instants are
  integers; no arithmetic is done on them, so no overflow can occur.
\<close>

type_synonym byte = "8 word"
type_synonym bytes = "byte list"

subsection \<open>Standard library: \<^verbatim>\<open>encoding/hex\<close>, \<^verbatim>\<open>strings\<close>, \<^verbatim>\<open>copy\<close>\<close>

definition hextable :: string where
  "hextable = ''0123456789abcdef''"

text \<open>\<^verbatim>\<open>hex.EncodeToString\<close>: each byte \<open>v\<close> gives \<^verbatim>\<open>hextable[v>>4]\<close>, \<^verbatim>\<open>hextable[v&0x0f]\<close>.\<close>

definition EncodeToString :: "bytes \<Rightarrow> string" where
  "EncodeToString src =
     concat (map (\<lambda>v. [hextable ! unat (drop_bit 4 v), hextable ! unat (v AND 0x0f)]) src)"

text \<open>\<^verbatim>\<open>strings.HasPrefix(s, prefix)\<close>: \<^verbatim>\<open>len(s) >= len(prefix) && s[:len(prefix)] == prefix\<close>.\<close>

definition HasPrefix :: "string \<Rightarrow> string \<Rightarrow> bool" where
  "HasPrefix s pre = (length pre \<le> length s \<and> take (length pre) s = pre)"

text \<open>\<^verbatim>\<open>strings.CutPrefix(s, prefix)\<close> returns \<^verbatim>\<open>(s, false)\<close> or \<^verbatim>\<open>(s[len(prefix):], true)\<close>.\<close>

definition CutPrefix :: "string \<Rightarrow> string \<Rightarrow> string \<times> bool" where
  "CutPrefix s pre = (if \<not> HasPrefix s pre then (s, False) else (drop (length pre) s, True))"

text \<open>
  \<^verbatim>\<open>strings.Index(s, substr)\<close>: the index of the first occurrence of \<open>substr\<close> in
  \<open>s\<close>; Go's \<open>-1\<close> is \<open>None\<close>.
\<close>

fun Index :: "string \<Rightarrow> string \<Rightarrow> nat option" where
  "Index [] substr = (if substr = [] then Some 0 else None)"
| "Index (c # s) substr =
     (if HasPrefix (c # s) substr then Some 0 else map_option Suc (Index s substr))"

lemma Index_bound: "Index s substr = Some m \<Longrightarrow> m + length substr \<le> length s"
proof (induction s arbitrary: m)
  case Nil
  then show ?case by (simp split: if_splits)
next
  case (Cons c s)
  show ?case
  proof (cases "HasPrefix (c # s) substr")
    case True
    with Cons.prems show ?thesis by (simp add: HasPrefix_def)
  next
    case False
    with Cons.prems obtain k where "Index s substr = Some k" and "m = Suc k" by auto
    with Cons.IH [of k] show ?thesis by simp
  qed
qed

text \<open>
  \<^verbatim>\<open>strings.Split(s, sep)\<close>, that is \<^verbatim>\<open>genSplit(s, sep, 0, -1)\<close>: cut \<open>s\<close> at each
  occurrence of \<open>sep\<close>, found from the left, the search resuming after the occurrence.
  Serve passes the non-empty separator \<^verbatim>\<open>":mount_at:"\<close>; for the empty separator Go splits
  after every character, which for ASCII text is every byte.
\<close>

function Split :: "string \<Rightarrow> string \<Rightarrow> string list" where
  "Split s sep =
     (if sep = [] then map (\<lambda>c. [c]) s
      else (case Index s sep of
              None \<Rightarrow> [s]
            | Some m \<Rightarrow> take m s # Split (drop (m + length sep) s) sep))"
  by pat_completeness auto
termination
proof (relation "measure (\<lambda>(s, sep). length s)")
  show "wf (measure (\<lambda>(s, sep). length s))" by simp
next
  fix s sep :: string and m :: nat
  assume "sep \<noteq> []" and "Index s sep = Some m"
  then have "m + length sep \<le> length s" and "0 < length sep"
    by (simp_all add: Index_bound)
  then show "((drop (m + length sep) s, sep), (s, sep)) \<in> measure (\<lambda>(s, sep). length s)"
    by (simp del: length_greater_0_conv)
qed

declare Split.simps [simp del]

text \<open>The builtin \<^verbatim>\<open>copy(dst, src)\<close>: overwrites the first \<open>min (len dst) (len src)\<close>
  elements of \<open>dst\<close> and returns that number.\<close>

definition go_copy :: "'a list \<Rightarrow> 'a list \<Rightarrow> 'a list \<times> nat" where
  "go_copy dst src =
     (let n = min (length dst) (length src) in (take n src @ drop n dst, n))"

section \<open>Package blockstorage: the in-memory blob backend\<close>

definition hashToStringMapKey :: "bytes \<Rightarrow> string" where
  "hashToStringMapKey hash = EncodeToString hash"

record HashedBlockMapInMemory =
  blockMap :: "string \<rightharpoonup> bytes"

definition NewHashedBlockMapInMemory :: HashedBlockMapInMemory where
  "NewHashedBlockMapInMemory = \<lparr>blockMap = Map.empty\<rparr>"

definition HashedBlockMapInMemory_Get :: "HashedBlockMapInMemory \<Rightarrow> bytes \<Rightarrow> bytes \<times> bool" where
  "HashedBlockMapInMemory_Get hm hash =
     (case blockMap hm (hashToStringMapKey hash) of
        None \<Rightarrow> ([], False)
      | Some data \<Rightarrow> (data, True))"

definition HashedBlockMapInMemory_Set ::
  "HashedBlockMapInMemory \<Rightarrow> bytes \<Rightarrow> bytes \<Rightarrow> HashedBlockMapInMemory" where
  "HashedBlockMapInMemory_Set hm hash data =
     hm\<lparr>blockMap := (blockMap hm)(hashToStringMapKey hash \<mapsto> data)\<rparr>"

definition HashedBlockMapInMemory_Delete ::
  "HashedBlockMapInMemory \<Rightarrow> bytes \<Rightarrow> HashedBlockMapInMemory" where
  "HashedBlockMapInMemory_Delete hm hash =
     hm\<lparr>blockMap := (blockMap hm)(hashToStringMapKey hash := None)\<rparr>"

text \<open>A client of the backend issues a sequence of calls; \<open>run_ops\<close> performs them in order.\<close>

datatype blob_op = OpGet bytes | OpSet bytes bytes | OpDelete bytes

fun apply_blob_op :: "HashedBlockMapInMemory \<Rightarrow> blob_op \<Rightarrow> HashedBlockMapInMemory" where
  "apply_blob_op hm (OpGet h) = hm"
| "apply_blob_op hm (OpSet h d) = HashedBlockMapInMemory_Set hm h d"
| "apply_blob_op hm (OpDelete h) = HashedBlockMapInMemory_Delete hm h"

definition run_ops :: "HashedBlockMapInMemory \<Rightarrow> blob_op list \<Rightarrow> HashedBlockMapInMemory" where
  "run_ops hm ops = foldl apply_blob_op hm ops"

text \<open>\<open>ends_round_trip hash data op\<close>: the call deletes \<open>hash\<close>, or stores other bytes
  under it (which starts the round trip of those bytes).\<close>

fun ends_round_trip :: "bytes \<Rightarrow> bytes \<Rightarrow> blob_op \<Rightarrow> bool" where
  "ends_round_trip hash data (OpGet h) = False"
| "ends_round_trip hash data (OpSet h d) = (h = hash \<and> d \<noteq> data)"
| "ends_round_trip hash data (OpDelete h) = (h = hash)"

fun stores_under :: "bytes \<Rightarrow> blob_op \<Rightarrow> bool" where
  "stores_under hash (OpSet h d) = (h = hash)"
| "stores_under hash _ = False"

section \<open>Collaborators of the service\<close>

text \<open>Go \<^verbatim>\<open>error\<close> values: the sentinel \<^verbatim>\<open>protocol.ErrNoSuchFile\<close>, and
  \<^verbatim>\<open>errors.New(msg)\<close> or any error a collaborator returns, carried by its message.\<close>

datatype error = ErrNoSuchFile | ErrorString string

text \<open>Modelled from the spec: \<^verbatim>\<open>protocol.BlockInfo\<close> and \<^verbatim>\<open>protocol.FileInfo\<close> are
  declared outside the files at hand. The records hold the fields of the spec's data model
  (\<open>offset\<close>, \<open>size\<close>, \<open>hash\<close>; \<open>name\<close>, \<open>size\<close>, \<open>modTime\<close>, \<open>isDirectory\<close>,
  \<open>blocks\<close>). The \<^verbatim>\<open>protocol.FileIntf\<close> a scan visits is read through the same fields
  (\<^verbatim>\<open>FileName()\<close>, \<^verbatim>\<open>FileSize()\<close>, \<^verbatim>\<open>ModTime()\<close>, \<^verbatim>\<open>IsDirectory()\<close>).\<close>

record BlockInfo =
  Offset :: int
  BlockSize :: int
  Hash :: bytes

record FileInfo =
  Name :: string
  FileSize :: int
  ModTime :: int
  IsDirectory :: bool
  Blocks :: "BlockInfo list"

text \<open>The payload map of the \<^verbatim>\<open>events.LocalIndexUpdated\<close> event, one field per key.\<close>

record LocalIndexUpdated =
  folder :: string
  items :: int
  filenames :: "string list"
  sequence :: int
  version :: int

text \<open>
  What the service does to its collaborators, in the order it does it: the index
  (\<^verbatim>\<open>fset.Snapshot\<close>, \<^verbatim>\<open>snap.Release\<close>, \<^verbatim>\<open>fset.UpdateOne\<close>), the block cache, the
  replication capability \<^verbatim>\<open>pullBlockBase\<close> (with its outcome), the event logger and
  the job queue's \<^verbatim>\<open>Done\<close>.
\<close>

datatype event =
    Snapshot_acquired
  | Snapshot_failed error
  | Snapshot_released
  | BlockCache_Get bytes
  | BlockCache_Set bytes bytes
  | PullBlockBase_call FileInfo BlockInfo "error + bytes"
  | UpdateOne_call FileInfo
  | Log_LocalIndexUpdated LocalIndexUpdated
  | Queue_Done string

fun is_failed_pull :: "event \<Rightarrow> bool" where
  "is_failed_pull (PullBlockBase_call fi bi (Inl err)) = True"
| "is_failed_pull _ = False"

fun is_UpdateOne :: "event \<Rightarrow> bool" where
  "is_UpdateOne (UpdateOne_call fi) = True"
| "is_UpdateOne _ = False"

fun is_LocalIndexUpdated :: "event \<Rightarrow> bool" where
  "is_LocalIndexUpdated (Log_LocalIndexUpdated payload) = True"
| "is_LocalIndexUpdated _ = False"

fun is_BlockCache_Get :: "event \<Rightarrow> bool" where
  "is_BlockCache_Get (BlockCache_Get h) = True"
| "is_BlockCache_Get _ = False"

fun is_fetch_event :: "event \<Rightarrow> bool" where
  "is_fetch_event (BlockCache_Get h) = True"
| "is_fetch_event (BlockCache_Set h d) = True"
| "is_fetch_event (PullBlockBase_call fi bi r) = True"
| "is_fetch_event _ = False"

text \<open>Modelled from the spec: the index capability (package \<^verbatim>\<open>db\<close>: \<^verbatim>\<open>FileSet\<close> and
  \<^verbatim>\<open>Snapshot\<close>) is outside the files at hand; the service consumes it through
  \<open>snapshot() -> (Snapshot, err)\<close>, \<open>snapshot.getGlobal(name) -> (FileInfo, bool)\<close>,
  \<open>snapshot.withNeedTruncated(device, visit)\<close>, \<open>updateOne(device, fileInfo)\<close> and
  \<open>sequence(device) -> i64\<close>. Each is a parameter, for any database \<open>'db\<close> and snapshot
  \<open>'snap\<close>; the device is always \<^verbatim>\<open>protocol.LocalDeviceID\<close>. \<open>ix_WithNeedTruncated\<close> gives
  the entries the visitor is called on, in order (the visitor of Scan always continues).\<close>

record ('db, 'snap) index_capability =
  ix_Snapshot :: "'db \<Rightarrow> error + 'snap"
  ix_GetGlobal :: "'snap \<Rightarrow> string \<Rightarrow> FileInfo option"
  ix_WithNeedTruncated :: "'snap \<Rightarrow> FileInfo list"
  ix_UpdateOne :: "'db \<Rightarrow> FileInfo \<Rightarrow> 'db"
  ix_Sequence :: "'db \<Rightarrow> int"

text \<open>Modelled from the spec: the replication capability
  \<open>pullBlockBase(sink, snapshot, file, block) -> err\<close>, where \<open>sink(bytes)\<close> is invoked
  exactly once on success with the block's bytes. Its outcome is \<open>Inr bytes\<close> (the sink
  was given \<open>bytes\<close>, the error is nil) or \<open>Inl err\<close>; it may depend on everything the
  service has done so far.\<close>

type_synonym 'snap pullBlockBase =
  "event list \<Rightarrow> 'snap \<Rightarrow> FileInfo \<Rightarrow> BlockInfo \<Rightarrow> error + bytes"

section \<open>The job queue\<close>

text \<open>Modelled from the spec: \<^verbatim>\<open>jobQueue\<close> is outside the files at hand. A job is
  \<open>(name, size, modTime)\<close>; the queue is an insertion-order list of pending jobs, unique
  by name, and an in-progress set. \<open>pushIfNew\<close> enqueues if the name is not already pending
  or in progress and returns whether a new entry was added; \<open>pop\<close> is non-blocking
  (\<open>(_, false)\<close> when empty) and moves the head to in-progress; \<open>markDone\<close> takes the
  name out of in-progress; the sort is stable, on the pending jobs only, by the folder's
  order policy (alphabetic, oldest-first, newest-first, smallest-first, largest-first).\<close>

record jobQueueEntry =
  jobName :: string
  jobSize :: int
  jobModified :: int

record jobQueue =
  queued :: "jobQueueEntry list"
  progress :: "string set"

text \<open>Modelled from the spec: the folder's order policy (\<^verbatim>\<open>config.PullOrder\<close>), the five
  policies the spec names.\<close>

datatype PullOrder = Alphabetic | OldestFirst | NewestFirst | SmallestFirst | LargestFirst

text \<open>Modelled from the spec: \<^verbatim>\<open>newJobQueue\<close>, the empty queue.\<close>

definition newJobQueue :: jobQueue where
  "newJobQueue = \<lparr>queued = [], progress = {}\<rparr>"

text \<open>Modelled from the spec: \<^verbatim>\<open>PushIfNew\<close> enqueues if the name is not already pending or
  in progress, and returns whether a new entry was added.\<close>

definition PushIfNew :: "jobQueue \<Rightarrow> string \<Rightarrow> int \<Rightarrow> int \<Rightarrow> jobQueue \<times> bool" where
  "PushIfNew q file size' modified =
     (if file \<in> jobName ` set (queued q) \<or> file \<in> progress q then (q, False)
      else (q\<lparr>queued := queued q @ [\<lparr>jobName = file, jobSize = size', jobModified = modified\<rparr>]\<rparr>,
            True))"

text \<open>Modelled from the spec: \<^verbatim>\<open>Pop\<close> is non-blocking; it returns \<open>(_, false)\<close> when the
  queue is empty, and otherwise moves the head from pending to in-progress.\<close>

definition Pop :: "jobQueue \<Rightarrow> jobQueue \<times> string \<times> bool" where
  "Pop q =
     (case queued q of
        [] \<Rightarrow> (q, [], False)
      | e # es \<Rightarrow> (q\<lparr>queued := es, progress := insert (jobName e) (progress q)\<rparr>, jobName e, True))"

text \<open>Modelled from the spec: \<^verbatim>\<open>Done\<close> (markDone) takes the name from in-progress to absent.\<close>

definition Done :: "jobQueue \<Rightarrow> string \<Rightarrow> jobQueue" where
  "Done q file = q\<lparr>progress := progress q - {file}\<rparr>"

text \<open>Modelled from the spec: \<^verbatim>\<open>SortAccordingToConfig\<close> sorts the pending jobs, stably, by the
  order policy (\<open>sort_key\<close> is a stable insertion sort; strings compare bytewise).\<close>

fun SortAccordingToConfig :: "PullOrder \<Rightarrow> jobQueue \<Rightarrow> jobQueue" where
  "SortAccordingToConfig Alphabetic q = q\<lparr>queued := sort_key jobName (queued q)\<rparr>"
| "SortAccordingToConfig OldestFirst q = q\<lparr>queued := sort_key jobModified (queued q)\<rparr>"
| "SortAccordingToConfig NewestFirst q = q\<lparr>queued := sort_key (\<lambda>e. - jobModified e) (queued q)\<rparr>"
| "SortAccordingToConfig SmallestFirst q = q\<lparr>queued := sort_key jobSize (queued q)\<rparr>"
| "SortAccordingToConfig LargestFirst q = q\<lparr>queued := sort_key (\<lambda>e. - jobSize e) (queued q)\<rparr>"

text \<open>The states of a name in the queue (spec: absent, pending, in-progress).\<close>

datatype job_state = Absent | Pending | InProgress

definition state_of :: "jobQueue \<Rightarrow> string \<Rightarrow> job_state" where
  "state_of q file =
     (if file \<in> progress q then InProgress
      else if file \<in> jobName ` set (queued q) then Pending
      else Absent)"

text \<open>The queue's invariant: pending names are unique, and none of them is in progress.\<close>

definition unique_names :: "jobQueue \<Rightarrow> bool" where
  "unique_names q =
     (distinct (map jobName (queued q)) \<and> jobName ` set (queued q) \<inter> progress q = {})"

section \<open>The virtual folder service\<close>

text \<open>
  The fields of \<^verbatim>\<open>virtualFolderSyncthingService\<close> (and of the embedded \<^verbatim>\<open>folderBase\<close>) that
  the functions below touch. \<open>blockCache\<close> is the store Serve has installed (workers and the
  mount run only after that); the in-memory backend stands for it.
  \<open>backgroundDownloadPending\<close> is the number of tokens in the capacity-1 channel.
  \<open>trace\<close> logs the calls made on the collaborators, oldest first. The functions are
  those of one goroutine: what other workers do in between is not modelled.
\<close>

record 'db virtualFolderSyncthingService =
  ID :: string
  Order :: PullOrder
  fset :: 'db
  blockCache :: HashedBlockMapInMemory
  backgroundDownloadPending :: nat
  backgroundDownloadQueue :: jobQueue
  trace :: "event list"

text \<open>\<^verbatim>\<open>newVirtualFolder\<close>: an empty queue and an empty capacity-1 channel. The source leaves
  \<open>blockCache\<close> nil for Serve to fill; here it is the empty store Serve would install.\<close>

definition newVirtualFolder :: "'db \<Rightarrow> string \<Rightarrow> PullOrder \<Rightarrow> 'db virtualFolderSyncthingService" where
  "newVirtualFolder db folderID order =
     \<lparr>ID = folderID, Order = order, fset = db,
      blockCache = NewHashedBlockMapInMemory,
      backgroundDownloadPending = 0,
      backgroundDownloadQueue = newJobQueue,
      trace = []\<rparr>"

definition GetBlockDataFromCacheOrDownload ::
  "'snap pullBlockBase \<Rightarrow> 'db virtualFolderSyncthingService \<Rightarrow> 'snap \<Rightarrow> FileInfo \<Rightarrow> BlockInfo
     \<Rightarrow> 'db virtualFolderSyncthingService \<times> bytes \<times> bool" where
  "GetBlockDataFromCacheOrDownload pull vFSS snap file block =
     (case HashedBlockMapInMemory_Get (blockCache vFSS) (Hash block) of
        (data, ok) \<Rightarrow>
          let s1 = vFSS\<lparr>trace := trace vFSS @ [BlockCache_Get (Hash block)]\<rparr> in
          if \<not> ok then
            (case pull (trace s1) snap file block of
               Inl err \<Rightarrow>
                 (s1\<lparr>trace := trace s1 @ [PullBlockBase_call file block (Inl err)]\<rparr>, [], False)
             | Inr blockData \<Rightarrow>
                 (s1\<lparr>trace := trace s1 @ [PullBlockBase_call file block (Inr blockData),
                                           BlockCache_Set (Hash block) blockData],
                     blockCache :=
                       HashedBlockMapInMemory_Set (blockCache s1) (Hash block) blockData\<rparr>,
                  blockData, True))
          else (s1, data, True))"

text \<open>The non-blocking send \<^verbatim>\<open>select { case ch <- struct{}{}: default: }\<close> on a channel of
  capacity 1 holding \<open>n\<close> tokens.\<close>

definition try_send :: "nat \<Rightarrow> nat" where
  "try_send n = (if n < 1 then n + 1 else n)"

definition RequestBackgroundDownload ::
  "'db virtualFolderSyncthingService \<Rightarrow> string \<Rightarrow> int \<Rightarrow> int \<Rightarrow> 'db virtualFolderSyncthingService" where
  "RequestBackgroundDownload f filename size' modified =
     (case PushIfNew (backgroundDownloadQueue f) filename size' modified of
        (q, wasNew) \<Rightarrow>
          if \<not> wasNew then f\<lparr>backgroundDownloadQueue := q\<rparr>
          else f\<lparr>backgroundDownloadQueue := SortAccordingToConfig (Order f) q,
                 backgroundDownloadPending := try_send (backgroundDownloadPending f)\<rparr>)"

text \<open>A caller (Scan, the control plane) issuing several requests in a row.\<close>

definition request_all ::
  "'db virtualFolderSyncthingService \<Rightarrow> (string \<times> int \<times> int) list
     \<Rightarrow> 'db virtualFolderSyncthingService" where
  "request_all f reqs =
     foldl (\<lambda>f (filename, size', modified). RequestBackgroundDownload f filename size' modified)
       f reqs"

text \<open>The loop \<^verbatim>\<open>for _, bi := range fi.Blocks\<close> of the worker, with its flag \<open>all_ok\<close>.\<close>

fun fetch_blocks ::
  "'snap pullBlockBase \<Rightarrow> 'db virtualFolderSyncthingService \<Rightarrow> 'snap \<Rightarrow> FileInfo \<Rightarrow> BlockInfo list
     \<Rightarrow> bool \<Rightarrow> 'db virtualFolderSyncthingService \<times> bool" where
  "fetch_blocks pull f snap fi [] all_ok = (f, all_ok)"
| "fetch_blocks pull f snap fi (bi # bis) all_ok =
     (case GetBlockDataFromCacheOrDownload pull f snap fi bi of
        (f', data, ok) \<Rightarrow> fetch_blocks pull f' snap fi bis (all_ok \<and> ok))"

text \<open>The body of the closure the worker runs for a popped job (without the deferred call).\<close>

definition job_body ::
  "('db, 'snap) index_capability \<Rightarrow> 'snap pullBlockBase \<Rightarrow> 'db virtualFolderSyncthingService
     \<Rightarrow> string \<Rightarrow> 'db virtualFolderSyncthingService" where
  "job_body ix pull f job =
     (case ix_Snapshot ix (fset f) of
        Inl err \<Rightarrow> f\<lparr>trace := trace f @ [Snapshot_failed err]\<rparr>
      | Inr snap \<Rightarrow>
          let f1 = f\<lparr>trace := trace f @ [Snapshot_acquired]\<rparr> in
          (case ix_GetGlobal ix snap job of
             None \<Rightarrow> f1
           | Some fi \<Rightarrow>
               (case fetch_blocks pull f1 snap fi (Blocks fi) True of
                  (f2, all_ok) \<Rightarrow>
                    if \<not> all_ok then f2
                    else
                      let f3 = f2\<lparr>fset := ix_UpdateOne ix (fset f2) fi,
                                  trace := trace f2 @ [UpdateOne_call fi]\<rparr>;
                          seq = ix_Sequence ix (fset f3)
                      in f3\<lparr>trace := trace f3 @
                              [Log_LocalIndexUpdated
                                 \<lparr>folder = ID f3, items = 1, filenames = [] @ [Name fi],
                                  sequence = seq, version = seq\<rparr>]\<rparr>)))"

text \<open>The closure itself: \<^verbatim>\<open>defer f.backgroundDownloadQueue.Done(job)\<close> runs when the body
  returns, on whichever path.\<close>

definition process_job ::
  "('db, 'snap) index_capability \<Rightarrow> 'snap pullBlockBase \<Rightarrow> 'db virtualFolderSyncthingService
     \<Rightarrow> string \<Rightarrow> 'db virtualFolderSyncthingService" where
  "process_job ix pull f job =
     (let f' = job_body ix pull f job in
      f'\<lparr>backgroundDownloadQueue := Done (backgroundDownloadQueue f') job,
         trace := trace f' @ [Queue_Done job]\<rparr>)"

text \<open>The calls one job adds to the trace.\<close>

definition job_calls ::
  "('db, 'snap) index_capability \<Rightarrow> 'snap pullBlockBase \<Rightarrow> 'db virtualFolderSyncthingService
     \<Rightarrow> string \<Rightarrow> event list" where
  "job_calls ix pull f job = drop (length (trace f)) (trace (process_job ix pull f job))"

subsection \<open>The worker's drain loop\<close>

text \<open>
  \<^verbatim>\<open>for job, ok := Pop(); ok; job, ok = Pop() { ... }\<close>: pop until the queue is empty,
  processing each job. It terminates because processing a job leaves the pending list as it
  is, so each round shortens it. (The \<^verbatim>\<open>select\<close> around it blocks until a wakeup token or
  the context's end.)
\<close>

lemma GetBlockDataFromCacheOrDownload_frame:
  assumes "GetBlockDataFromCacheOrDownload pull f snap fi b = (f', data, ok)"
  shows "fset f' = fset f" and "ID f' = ID f" and "Order f' = Order f"
    and "backgroundDownloadQueue f' = backgroundDownloadQueue f"
    and "backgroundDownloadPending f' = backgroundDownloadPending f"
  using assms
  by (auto simp: GetBlockDataFromCacheOrDownload_def Let_def split: prod.splits if_splits sum.splits)

lemma fetch_blocks_frame:
  assumes "fetch_blocks pull f snap fi bis acc = (f', ok)"
  shows "fset f' = fset f \<and> ID f' = ID f \<and> Order f' = Order f
     \<and> backgroundDownloadQueue f' = backgroundDownloadQueue f
     \<and> backgroundDownloadPending f' = backgroundDownloadPending f"
  using assms
proof (induction bis arbitrary: f acc)
  case Nil
  then show ?case by simp
next
  case (Cons b bis)
  obtain f1 d ok1 where step: "GetBlockDataFromCacheOrDownload pull f snap fi b = (f1, d, ok1)"
    by (cases "GetBlockDataFromCacheOrDownload pull f snap fi b") auto
  with Cons.prems have "fetch_blocks pull f1 snap fi bis (acc \<and> ok1) = (f', ok)" by simp
  from Cons.IH [OF this] GetBlockDataFromCacheOrDownload_frame [OF step]
  show ?case by simp
qed

lemma process_job_queue:
  "backgroundDownloadQueue (process_job ix pull f job) = Done (backgroundDownloadQueue f) job"
proof -
  have "backgroundDownloadQueue (job_body ix pull f job) = backgroundDownloadQueue f"
  proof (cases "ix_Snapshot ix (fset f)")
    case (Inl err)
    then show ?thesis by (simp add: job_body_def)
  next
    case (Inr snap)
    show ?thesis
    proof (cases "ix_GetGlobal ix snap job")
      case None
      with Inr show ?thesis by (simp add: job_body_def)
    next
      case (Some fi)
      let ?f1 = "f\<lparr>trace := trace f @ [Snapshot_acquired]\<rparr>"
      obtain f2 all_ok where loop: "fetch_blocks pull ?f1 snap fi (Blocks fi) True = (f2, all_ok)"
        by (cases "fetch_blocks pull ?f1 snap fi (Blocks fi) True") auto
      from fetch_blocks_frame [OF loop] Inr Some loop show ?thesis
        by (simp add: job_body_def Let_def)
    qed
  qed
  then show ?thesis by (simp add: process_job_def Let_def)
qed

lemma process_job_queued:
  "queued (backgroundDownloadQueue (process_job ix pull f job)) = queued (backgroundDownloadQueue f)"
  by (simp add: process_job_queue Done_def)

function Serve_backgroundDownloadTask_drain ::
  "('db, 'snap) index_capability \<Rightarrow> 'snap pullBlockBase \<Rightarrow> 'db virtualFolderSyncthingService
     \<Rightarrow> 'db virtualFolderSyncthingService" where
  "Serve_backgroundDownloadTask_drain ix pull f =
     (case Pop (backgroundDownloadQueue f) of
        (q, job, ok) \<Rightarrow>
          if ok then
            Serve_backgroundDownloadTask_drain ix pull
              (process_job ix pull (f\<lparr>backgroundDownloadQueue := q\<rparr>) job)
          else f\<lparr>backgroundDownloadQueue := q\<rparr>)"
  by pat_completeness auto
termination
proof (relation "measure (\<lambda>(ix, pull, f). length (queued (backgroundDownloadQueue f)))")
  show "wf (measure (\<lambda>(ix, pull, f). length (queued (backgroundDownloadQueue f))))" by simp
next
  fix ix :: "('db, 'snap) index_capability" and pull :: "'snap pullBlockBase"
    and f :: "'db virtualFolderSyncthingService" and q y job ok
  assume "(q, y) = Pop (backgroundDownloadQueue f)" and "(job, ok) = y" and ok
  then have p: "Pop (backgroundDownloadQueue f) = (q, job, True)" by simp
  then have "length (queued q) < length (queued (backgroundDownloadQueue f))"
    by (cases "queued (backgroundDownloadQueue f)") (auto simp: Pop_def)
  then show "((ix, pull, process_job ix pull (f\<lparr>backgroundDownloadQueue := q\<rparr>) job), ix, pull, f)
      \<in> measure (\<lambda>(ix, pull, f). length (queued (backgroundDownloadQueue f)))"
    by (simp add: process_job_queued)
qed

declare Serve_backgroundDownloadTask_drain.simps [simp del]

text \<open>Scan: the visitor, then the function.\<close>

definition Scan_visit ::
  "('db, 'snap) index_capability \<Rightarrow> 'snap \<Rightarrow> 'db virtualFolderSyncthingService \<Rightarrow> FileInfo
     \<Rightarrow> 'db virtualFolderSyncthingService" where
  "Scan_visit ix snap vf f =
     (if IsDirectory f then
        (case ix_GetGlobal ix snap (Name f) of
           Some fi \<Rightarrow> vf\<lparr>fset := ix_UpdateOne ix (fset vf) fi,
                        trace := trace vf @ [UpdateOne_call fi]\<rparr>
         | None \<Rightarrow> vf)
      else RequestBackgroundDownload vf (Name f) (FileSize f) (ModTime f))"

definition Scan ::
  "('db, 'snap) index_capability \<Rightarrow> 'db virtualFolderSyncthingService \<Rightarrow> string list
     \<Rightarrow> 'db virtualFolderSyncthingService \<times> error option" where
  "Scan ix vf subs =
     (case ix_Snapshot ix (fset vf) of
        Inl err \<Rightarrow> (vf\<lparr>trace := trace vf @ [Snapshot_failed err]\<rparr>, Some err)
      | Inr snap \<Rightarrow>
          (foldl (Scan_visit ix snap) (vf\<lparr>trace := trace vf @ [Snapshot_acquired]\<rparr>)
             (ix_WithNeedTruncated ix snap),
           None))"

definition GetHashBlockData ::
  "'db virtualFolderSyncthingService \<Rightarrow> bytes \<Rightarrow> bytes
     \<Rightarrow> 'db virtualFolderSyncthingService \<times> bytes \<times> int \<times> error option" where
  "GetHashBlockData vf hash response_data =
     (case HashedBlockMapInMemory_Get (blockCache vf) hash of
        (data, ok) \<Rightarrow>
          let vf' = vf\<lparr>trace := trace vf @ [BlockCache_Get hash]\<rparr> in
          if \<not> ok then (vf', response_data, 0, Some ErrNoSuchFile)
          else (case go_copy response_data data of
                  (buf, n) \<Rightarrow> (vf', buf, int n, None)))"

subsection \<open>Serve: resolving the backend\<close>

text \<open>
  The block of Serve guarded by \<^verbatim>\<open>f.blockCache == nil\<close> (true when Serve first runs on what
  \<^verbatim>\<open>newVirtualFolder\<close> built), up to the blob URL handed to \<^verbatim>\<open>NewGoCloudUrlStorage\<close> and the
  mount path. \<open>mkdirAll\<close> is the outcome of \<^verbatim>\<open>os.MkdirAll(myDir, 0o777)\<close>; on an error
  \<^verbatim>\<open>log.Fatal\<close> ends the process.
\<close>

datatype serve_outcome =
    Serve_returns error
  | Process_exits error
  | Backend string string

definition missing_mount_at :: error where
  \<open>missing_mount_at = ErrorString ''missing ":mount_at:" in virtual descriptor''\<close>

definition Serve_resolve :: "(string \<Rightarrow> error option) \<Rightarrow> string \<Rightarrow> serve_outcome" where
  \<open>Serve_resolve mkdirAll path =
     (case CutPrefix path '':virtual:'' of
        (virtual_descriptor, hasVirtualDescriptor) \<Rightarrow>
          if hasVirtualDescriptor then
            (let parts = Split virtual_descriptor '':mount_at:'' in
             if length parts \<noteq> 2 then
               Serve_returns missing_mount_at
             else Backend (parts ! 0) (parts ! 1))
          else
            (let myDir = path @ ''_BlobStorage'' in
             case mkdirAll myDir of
               Some err \<Rightarrow> Process_exits err
             | None \<Rightarrow> Backend (''file://'' @ myDir @ ''?no_tmp_dir=yes'') (path @ ''R'')))\<close>

section \<open>Scenario fixtures\<close>

text \<open>The spec's scenarios S2 and S3: an index whose global view holds \<open>file.bin\<close> (two
  blocks) and a directory, a folder fresh from \<^verbatim>\<open>newVirtualFolder\<close>, a replication
  capability that serves every block, and one that errors for the first of the two blocks.\<close>

definition scenario_block0 :: BlockInfo where
  "scenario_block0 = \<lparr>Offset = 0, BlockSize = 1, Hash = [1]\<rparr>"

definition scenario_block1 :: BlockInfo where
  "scenario_block1 = \<lparr>Offset = 1, BlockSize = 1, Hash = [2]\<rparr>"

definition scenario_file :: FileInfo where
  "scenario_file =
     \<lparr>Name = ''file.bin'', FileSize = 2, ModTime = 7, IsDirectory = False,
      Blocks = [scenario_block0, scenario_block1]\<rparr>"

definition scenario_dir :: FileInfo where
  "scenario_dir = \<lparr>Name = ''dir'', FileSize = 0, ModTime = 3, IsDirectory = True, Blocks = []\<rparr>"

definition scenario_index :: "(FileInfo list, unit) index_capability" where
  "scenario_index =
     \<lparr>ix_Snapshot = (\<lambda>db. Inr ()),
      ix_GetGlobal = (\<lambda>snap name'.
         if name' = ''file.bin'' then Some scenario_file
         else if name' = ''dir'' then Some scenario_dir else None),
      ix_WithNeedTruncated = (\<lambda>snap. [scenario_dir, scenario_file]),
      ix_UpdateOne = (\<lambda>db fi. db @ [fi]),
      ix_Sequence = (\<lambda>db. int (length db))\<rparr>"

definition pull_serving :: "unit pullBlockBase" where
  "pull_serving tr snap fi bi = Inr [0]"

definition pull_failing_first :: "unit pullBlockBase" where
  "pull_failing_first tr snap fi bi =
     (if Hash bi = [1] then Inl (ErrorString ''pull failed'') else Inr [0])"

definition scenario_folder :: "FileInfo list virtualFolderSyncthingService" where
  "scenario_folder = newVirtualFolder [] ''default'' Alphabetic"

text \<open>The same folder with block \<open>[1]\<close> already cached, and with a job \<open>ghost\<close> (a name
  the global index does not hold) just popped from a queue that held it.\<close>

definition scenario_cached :: "FileInfo list virtualFolderSyncthingService" where
  "scenario_cached =
     scenario_folder\<lparr>blockCache :=
       HashedBlockMapInMemory_Set (blockCache scenario_folder) [1] [42, 43]\<rparr>"

definition scenario_ghost_queue :: jobQueue where
  "scenario_ghost_queue =
     \<lparr>queued = [\<lparr>jobName = ''ghost'', jobSize = 1, jobModified = 2\<rparr>], progress = {}\<rparr>"

definition scenario_popped :: "FileInfo list virtualFolderSyncthingService" where
  "scenario_popped =
     scenario_folder\<lparr>backgroundDownloadQueue := fst (Pop scenario_ghost_queue)\<rparr>"

text \<open>The folder after one request for \<open>file.bin\<close>; an \<^verbatim>\<open>os.MkdirAll\<close> that succeeds and
  one that is refused.\<close>

definition mkdir_succeeds :: "string \<Rightarrow> error option" where
  "mkdir_succeeds dir = None"

definition mkdir_denied :: "string \<Rightarrow> error option" where
  "mkdir_denied dir = Some (ErrorString ''permission denied'')"

definition scenario_requested :: "FileInfo list virtualFolderSyncthingService" where
  "scenario_requested = RequestBackgroundDownload scenario_folder ''file.bin'' 2 7"

section \<open>The hex key encoding is injective\<close>

lemma hextable_inj: "i < 16 \<Longrightarrow> j < 16 \<Longrightarrow> hextable ! i = hextable ! j \<Longrightarrow> i = j"
proof -
  have d: "distinct hextable" by (simp add: hextable_def)
  have l: "length hextable = 16" by (simp add: hextable_def)
  show "i < 16 \<Longrightarrow> j < 16 \<Longrightarrow> hextable ! i = hextable ! j \<Longrightarrow> i = j"
    using d l by (simp add: nth_eq_iff_index_eq)
qed

lemma low_nibble: "(v::byte) AND 0x0f = take_bit 4 v"
proof -
  have "(0x0f::byte) = mask 4" by (simp add: mask_eq_exp_minus_1)
  then show ?thesis by (simp add: take_bit_eq_mask)
qed

lemma high_nibble_less: "unat (drop_bit 4 (v::byte)) < 16"
proof -
  have "unat v < 2 ^ 8" using unsigned_less [of v] by simp
  moreover have "unat (drop_bit 4 v) = drop_bit 4 (unat v)" by (rule unat_drop_bit_eq)
  ultimately show ?thesis by (simp only: drop_bit_eq_div) simp
qed

lemma low_nibble_less: "unat ((v::byte) AND 0x0f) < 16"
proof -
  have "unat (take_bit 4 v) = take_bit 4 (unat v)" by (rule unsigned_take_bit_eq)
  then show ?thesis by (simp only: low_nibble take_bit_eq_mod) simp
qed

lemma byte_from_nibbles:
  assumes "drop_bit 4 (v::byte) = drop_bit 4 w" and "v AND 0x0f = w AND 0x0f"
  shows "v = w"
proof -
  have "v = push_bit 4 (drop_bit 4 v) + take_bit 4 v" by (simp add: bits_ident)
  also have "\<dots> = push_bit 4 (drop_bit 4 w) + take_bit 4 w"
    using assms by (simp add: low_nibble)
  also have "\<dots> = w" by (simp add: bits_ident)
  finally show ?thesis .
qed

lemma EncodeToString_inj: "EncodeToString a = EncodeToString b \<Longrightarrow> a = b"
proof (induction a arbitrary: b)
  case Nil
  then show ?case by (cases b) (simp_all add: EncodeToString_def)
next
  case (Cons v a)
  then obtain w b' where b: "b = w # b'" by (cases b) (simp_all add: EncodeToString_def)
  from Cons.prems b have hi: "hextable ! unat (drop_bit 4 v) = hextable ! unat (drop_bit 4 w)"
    and lo: "hextable ! unat (v AND 0x0f) = hextable ! unat (w AND 0x0f)"
    and rest: "EncodeToString a = EncodeToString b'"
    by (simp_all add: EncodeToString_def)
  from hi have "unat (drop_bit 4 v) = unat (drop_bit 4 w)"
    by (rule hextable_inj [OF high_nibble_less high_nibble_less])
  moreover from lo have "unat (v AND 0x0f) = unat (w AND 0x0f)"
    by (rule hextable_inj [OF low_nibble_less low_nibble_less])
  ultimately have "v = w" by (simp add: byte_from_nibbles flip: word_unat_eq_iff)
  with Cons.IH [OF rest] b show ?case by simp
qed

lemma hashToStringMapKey_eq_iff: "hashToStringMapKey a = hashToStringMapKey b \<longleftrightarrow> a = b"
  by (auto simp: hashToStringMapKey_def dest: EncodeToString_inj)

section \<open>Round trip through the in-memory backend\<close>

lemma stored_survives_op:
  assumes "\<not> ends_round_trip hash data op"
    and "blockMap hm (hashToStringMapKey hash) = Some data"
  shows "blockMap (apply_blob_op hm op) (hashToStringMapKey hash) = Some data"
  using assms
  by (cases op)
     (auto simp: HashedBlockMapInMemory_Set_def HashedBlockMapInMemory_Delete_def
        hashToStringMapKey_eq_iff)

lemma stored_survives_ops:
  assumes "\<forall>op \<in> set ops. \<not> ends_round_trip hash data op"
    and "blockMap hm (hashToStringMapKey hash) = Some data"
  shows "blockMap (run_ops hm ops) (hashToStringMapKey hash) = Some data"
  using assms unfolding run_ops_def
proof (induction ops arbitrary: hm)
  case Nil
  then show ?case by simp
next
  case (Cons op ops)
  from Cons.prems have "blockMap (apply_blob_op hm op) (hashToStringMapKey hash) = Some data"
    by (simp add: stored_survives_op)
  with Cons.prems Cons.IH [of "apply_blob_op hm op"] show ?case by simp
qed

lemma deleted_survives_op:
  assumes "\<not> stores_under hash op"
    and "blockMap hm (hashToStringMapKey hash) = None"
  shows "blockMap (apply_blob_op hm op) (hashToStringMapKey hash) = None"
  using assms
  by (cases op)
     (auto simp: HashedBlockMapInMemory_Set_def HashedBlockMapInMemory_Delete_def
        hashToStringMapKey_eq_iff)

lemma deleted_survives_ops:
  assumes "\<forall>op \<in> set ops. \<not> stores_under hash op"
    and "blockMap hm (hashToStringMapKey hash) = None"
  shows "blockMap (run_ops hm ops) (hashToStringMapKey hash) = None"
  using assms unfolding run_ops_def
proof (induction ops arbitrary: hm)
  case Nil
  then show ?case by simp
next
  case (Cons op ops)
  from Cons.prems have "blockMap (apply_blob_op hm op) (hashToStringMapKey hash) = None"
    by (simp add: deleted_survives_op)
  with Cons.prems Cons.IH [of "apply_blob_op hm op"] show ?case by simp
qed

text \<open>
  Claim C4. In-memory blob backend: after \<open>Set(hash, data)\<close>, and then any calls that
  neither delete \<open>hash\<close> nor store other bytes under it (calls on other hashes are free,
  the hex key being injective), \<open>Get(hash)\<close> returns \<open>(data, true)\<close>. After
  \<open>Delete(hash)\<close>, and then any calls that do not store under \<open>hash\<close>, \<open>Get(hash)\<close>
  returns \<open>(nil, false)\<close>.
\<close>

theorem blob_backend_round_trip:
  "((\<forall>op \<in> set ops. \<not> ends_round_trip hash data op) \<longrightarrow>
      HashedBlockMapInMemory_Get
        (run_ops (HashedBlockMapInMemory_Set hm hash data) ops) hash = (data, True))
   \<and> ((\<forall>op \<in> set ops'. \<not> stores_under hash op) \<longrightarrow>
      HashedBlockMapInMemory_Get
        (run_ops (HashedBlockMapInMemory_Delete hm hash) ops') hash = ([], False))"
proof (intro conjI impI)
  assume quiet: "\<forall>op \<in> set ops. \<not> ends_round_trip hash data op"
  have "blockMap (HashedBlockMapInMemory_Set hm hash data) (hashToStringMapKey hash) = Some data"
    by (simp add: HashedBlockMapInMemory_Set_def)
  from stored_survives_ops [OF quiet this]
  show "HashedBlockMapInMemory_Get
          (run_ops (HashedBlockMapInMemory_Set hm hash data) ops) hash = (data, True)"
    by (simp add: HashedBlockMapInMemory_Get_def)
next
  assume quiet: "\<forall>op \<in> set ops'. \<not> stores_under hash op"
  have "blockMap (HashedBlockMapInMemory_Delete hm hash) (hashToStringMapKey hash) = None"
    by (simp add: HashedBlockMapInMemory_Delete_def)
  from deleted_survives_ops [OF quiet this]
  show "HashedBlockMapInMemory_Get
          (run_ops (HashedBlockMapInMemory_Delete hm hash) ops') hash = ([], False)"
    by (simp add: HashedBlockMapInMemory_Get_def)
qed

theorem blob_backend_round_trip_witness:
  "list_all (\<lambda>op. \<not> ends_round_trip [0xab] [1, 2] op)
      [OpSet [0xac] [9], OpGet [0xab], OpDelete [0xac], OpSet [0xab] [1, 2]]
   \<and> HashedBlockMapInMemory_Get
        (run_ops (HashedBlockMapInMemory_Set NewHashedBlockMapInMemory [0xab] [1, 2])
           [OpSet [0xac] [9], OpGet [0xab], OpDelete [0xac], OpSet [0xab] [1, 2]])
        [0xab] = ([1, 2], True)
   \<and> list_all (\<lambda>op. \<not> stores_under [0xab] op) [OpSet [0xac] [9], OpDelete [0xab], OpGet [0xab]]
   \<and> HashedBlockMapInMemory_Get
        (run_ops (HashedBlockMapInMemory_Delete
                    (HashedBlockMapInMemory_Set NewHashedBlockMapInMemory [0xab] [1, 2]) [0xab])
           [OpSet [0xac] [9], OpDelete [0xab], OpGet [0xab]])
        [0xab] = ([], False)"
proof -
  have h1: "\<forall>op \<in> set [OpSet [0xac] [9], OpGet [0xab], OpDelete [0xac], OpSet [0xab] [1, 2]].
              \<not> ends_round_trip [0xab] [1, 2] op"
    by simp
  have h2: "\<forall>op \<in> set [OpSet [0xac] [9], OpDelete [0xab], OpGet [0xab]].
              \<not> stores_under [0xab] op"
    by simp
  note inst = blob_backend_round_trip
    [of "[OpSet [0xac] [9], OpGet [0xab], OpDelete [0xac], OpSet [0xab] [1, 2]]"
        "[0xab]" "[1, 2]" _ "[OpSet [0xac] [9], OpDelete [0xab], OpGet [0xab]]"]
  from inst h1 have c1: "HashedBlockMapInMemory_Get
        (run_ops (HashedBlockMapInMemory_Set NewHashedBlockMapInMemory [0xab] [1, 2])
           [OpSet [0xac] [9], OpGet [0xab], OpDelete [0xac], OpSet [0xab] [1, 2]])
        [0xab] = ([1, 2], True)"
    by blast
  from inst h2 have c2: "HashedBlockMapInMemory_Get
        (run_ops (HashedBlockMapInMemory_Delete
                    (HashedBlockMapInMemory_Set NewHashedBlockMapInMemory [0xab] [1, 2]) [0xab])
           [OpSet [0xac] [9], OpDelete [0xab], OpGet [0xab]])
        [0xab] = ([], False)"
    by blast
  from h1 c1 h2 c2 show ?thesis unfolding list_all_iff by blast
qed

section \<open>The worker: what one job does\<close>

lemma GetBlockDataFromCacheOrDownload_trace:
  assumes "GetBlockDataFromCacheOrDownload pull f snap fi b = (f', data, ok)"
  shows "\<exists>new. trace f' = trace f @ new \<and> list_all is_fetch_event new
           \<and> ok = (\<not> list_ex is_failed_pull new)
           \<and> filter is_BlockCache_Get new = [BlockCache_Get (Hash b)]"
  using assms
  by (auto simp: GetBlockDataFromCacheOrDownload_def Let_def split: prod.splits if_splits sum.splits)

lemma fetch_blocks_trace:
  assumes "fetch_blocks pull f snap fi bis acc = (f', ok)"
  shows "\<exists>new. trace f' = trace f @ new \<and> list_all is_fetch_event new
           \<and> ok = (acc \<and> \<not> list_ex is_failed_pull new)
           \<and> filter is_BlockCache_Get new = map (\<lambda>b. BlockCache_Get (Hash b)) bis"
  using assms
proof (induction bis arbitrary: f acc)
  case Nil
  then show ?case by simp
next
  case (Cons b bis)
  obtain f1 d ok1 where step: "GetBlockDataFromCacheOrDownload pull f snap fi b = (f1, d, ok1)"
    by (cases "GetBlockDataFromCacheOrDownload pull f snap fi b") auto
  with Cons.prems have rest: "fetch_blocks pull f1 snap fi bis (acc \<and> ok1) = (f', ok)" by simp
  from GetBlockDataFromCacheOrDownload_trace [OF step] obtain n1 where
    n1: "trace f1 = trace f @ n1" "list_all is_fetch_event n1"
        "ok1 = (\<not> list_ex is_failed_pull n1)"
        "filter is_BlockCache_Get n1 = [BlockCache_Get (Hash b)]"
    by blast
  from Cons.IH [OF rest] obtain n2 where
    n2: "trace f' = trace f1 @ n2" "list_all is_fetch_event n2"
        "ok = ((acc \<and> ok1) \<and> \<not> list_ex is_failed_pull n2)"
        "filter is_BlockCache_Get n2 = map (\<lambda>b. BlockCache_Get (Hash b)) bis"
    by blast
  have "trace f' = trace f @ (n1 @ n2)" using n1 n2 by simp
  moreover have "list_all is_fetch_event (n1 @ n2)" using n1 n2 by simp
  moreover have "ok = (acc \<and> \<not> list_ex is_failed_pull (n1 @ n2))" using n1 n2 by auto
  moreover have "filter is_BlockCache_Get (n1 @ n2) = map (\<lambda>b. BlockCache_Get (Hash b)) (b # bis)"
    using n1 n2 by simp
  ultimately show ?case by blast
qed

lemma fetch_events_quiet:
  "list_all is_fetch_event new \<Longrightarrow>
     \<not> list_ex is_UpdateOne new \<and> \<not> list_ex is_LocalIndexUpdated new
     \<and> Queue_Done job \<notin> set new \<and> Snapshot_released \<notin> set new"
proof (induction new)
  case Nil
  then show ?case by simp
next
  case (Cons e new)
  then show ?case by (cases e) simp_all
qed

lemma process_job_paths [case_names snapshot_error not_global fetch_failed published]:
  fixes f :: "'db virtualFolderSyncthingService"
  assumes "\<And>err. \<lbrakk>ix_Snapshot ix (fset f) = Inl err;
             job_calls ix pull f job = [Snapshot_failed err, Queue_Done job];
             fset (process_job ix pull f job) = fset f;
             blockCache (process_job ix pull f job) = blockCache f\<rbrakk> \<Longrightarrow> P"
    and "\<And>snap. \<lbrakk>ix_Snapshot ix (fset f) = Inr snap; ix_GetGlobal ix snap job = None;
             job_calls ix pull f job = [Snapshot_acquired, Queue_Done job];
             fset (process_job ix pull f job) = fset f;
             blockCache (process_job ix pull f job) = blockCache f\<rbrakk> \<Longrightarrow> P"
    and "\<And>snap fi new. \<lbrakk>ix_Snapshot ix (fset f) = Inr snap; ix_GetGlobal ix snap job = Some fi;
             job_calls ix pull f job = Snapshot_acquired # new @ [Queue_Done job];
             list_all is_fetch_event new; list_ex is_failed_pull new;
             filter is_BlockCache_Get new = map (\<lambda>b. BlockCache_Get (Hash b)) (Blocks fi);
             fset (process_job ix pull f job) = fset f\<rbrakk> \<Longrightarrow> P"
    and "\<And>snap fi new. \<lbrakk>ix_Snapshot ix (fset f) = Inr snap; ix_GetGlobal ix snap job = Some fi;
             job_calls ix pull f job =
               Snapshot_acquired # new @
                 [UpdateOne_call fi,
                  Log_LocalIndexUpdated
                    \<lparr>folder = ID f, items = 1, filenames = [Name fi],
                     sequence = ix_Sequence ix (ix_UpdateOne ix (fset f) fi),
                     version = ix_Sequence ix (ix_UpdateOne ix (fset f) fi)\<rparr>,
                  Queue_Done job];
             list_all is_fetch_event new; \<not> list_ex is_failed_pull new;
             filter is_BlockCache_Get new = map (\<lambda>b. BlockCache_Get (Hash b)) (Blocks fi);
             fset (process_job ix pull f job) = ix_UpdateOne ix (fset f) fi\<rbrakk> \<Longrightarrow> P"
  shows P
proof (cases "ix_Snapshot ix (fset f)")
  case (Inl err)
  then show ?thesis
    using assms(1) [of err] by (simp add: job_calls_def process_job_def job_body_def)
next
  case (Inr snap)
  show ?thesis
  proof (cases "ix_GetGlobal ix snap job")
    case None
    with Inr show ?thesis
      using assms(2) [of snap] by (simp add: job_calls_def process_job_def job_body_def)
  next
    case (Some fi)
    let ?f1 = "f\<lparr>trace := trace f @ [Snapshot_acquired]\<rparr>"
    obtain f2 all_ok where loop: "fetch_blocks pull ?f1 snap fi (Blocks fi) True = (f2, all_ok)"
      by (cases "fetch_blocks pull ?f1 snap fi (Blocks fi) True") auto
    from fetch_blocks_trace [OF loop] obtain new where
      new: "trace f2 = trace ?f1 @ new" "list_all is_fetch_event new"
           "all_ok = (\<not> list_ex is_failed_pull new)"
           "filter is_BlockCache_Get new = map (\<lambda>b. BlockCache_Get (Hash b)) (Blocks fi)"
      by auto
    from fetch_blocks_frame [OF loop] have frame: "fset f2 = fset f" "ID f2 = ID f" by simp_all
    show ?thesis
    proof (cases all_ok)
      case False
      with Inr Some loop new frame show ?thesis
        using assms(3) [of snap fi new]
        by (simp add: job_calls_def process_job_def job_body_def)
    next
      case True
      with Inr Some loop new frame show ?thesis
        using assms(4) [of snap fi new]
        by (simp add: job_calls_def process_job_def job_body_def Let_def)
    qed
  qed
qed

lemma process_job_trace: "trace (process_job ix pull f job) = trace f @ job_calls ix pull f job"
proof -
  have "\<exists>new. trace (job_body ix pull f job) = trace f @ new"
  proof (cases "ix_Snapshot ix (fset f)")
    case (Inl err)
    then show ?thesis by (simp add: job_body_def)
  next
    case (Inr snap)
    show ?thesis
    proof (cases "ix_GetGlobal ix snap job")
      case None
      with Inr show ?thesis by (simp add: job_body_def)
    next
      case (Some fi)
      let ?f1 = "f\<lparr>trace := trace f @ [Snapshot_acquired]\<rparr>"
      obtain f2 all_ok where loop: "fetch_blocks pull ?f1 snap fi (Blocks fi) True = (f2, all_ok)"
        by (cases "fetch_blocks pull ?f1 snap fi (Blocks fi) True") auto
      from fetch_blocks_trace [OF loop] obtain new where "trace f2 = trace ?f1 @ new" by auto
      with Inr Some loop show ?thesis by (simp add: job_body_def Let_def)
    qed
  qed
  then show ?thesis by (auto simp: job_calls_def process_job_def Let_def)
qed

lemma drain_empties_queue:
  "queued (backgroundDownloadQueue (Serve_backgroundDownloadTask_drain ix pull f)) = []
   \<and> progress (backgroundDownloadQueue (Serve_backgroundDownloadTask_drain ix pull f)) =
       progress (backgroundDownloadQueue f) - jobName ` set (queued (backgroundDownloadQueue f))"
proof (induction ix pull f rule: Serve_backgroundDownloadTask_drain.induct)
  case (1 ix pull f)
  show ?case
  proof (cases "queued (backgroundDownloadQueue f)")
    case Nil
    then show ?thesis by (subst (1 2) Serve_backgroundDownloadTask_drain.simps) (simp add: Pop_def)
  next
    case (Cons e es)
    let ?q = "(backgroundDownloadQueue f)\<lparr>queued := es,
                 progress := insert (jobName e) (progress (backgroundDownloadQueue f))\<rparr>"
    from Cons have p: "Pop (backgroundDownloadQueue f) = (?q, jobName e, True)"
      by (simp add: Pop_def)
    let ?f' = "process_job ix pull (f\<lparr>backgroundDownloadQueue := ?q\<rparr>) (jobName e)"
    from p have step: "Serve_backgroundDownloadTask_drain ix pull f = Serve_backgroundDownloadTask_drain ix pull ?f'"
      by (subst Serve_backgroundDownloadTask_drain.simps) simp
    from "1.IH" [OF p [symmetric] refl TrueI] have
      IH: "queued (backgroundDownloadQueue (Serve_backgroundDownloadTask_drain ix pull ?f')) = [] \<and>
       progress (backgroundDownloadQueue (Serve_backgroundDownloadTask_drain ix pull ?f')) =
       progress (backgroundDownloadQueue ?f') - jobName ` set (queued (backgroundDownloadQueue ?f'))"
      by simp
    have "backgroundDownloadQueue ?f' = Done ?q (jobName e)" by (simp add: process_job_queue)
    with IH step Cons show ?thesis by (auto simp: Done_def)
  qed
qed

lemmas scenario_defs =
  scenario_folder_def newVirtualFolder_def scenario_index_def scenario_file_def scenario_dir_def
  scenario_block0_def scenario_block1_def scenario_cached_def scenario_ghost_queue_def
  scenario_popped_def pull_serving_def pull_failing_first_def newJobQueue_def
  NewHashedBlockMapInMemory_def

lemmas worker_defs =
  job_calls_def process_job_def job_body_def GetBlockDataFromCacheOrDownload_def
  HashedBlockMapInMemory_Get_def HashedBlockMapInMemory_Set_def Done_def Let_def

lemma scenario_failed_calls:
  "job_calls scenario_index pull_failing_first scenario_folder ''file.bin'' =
     [Snapshot_acquired,
      BlockCache_Get [1],
      PullBlockBase_call scenario_file scenario_block0
        (Inl (ErrorString ''pull failed'')),
      BlockCache_Get [2],
      PullBlockBase_call scenario_file scenario_block1 (Inr [0]),
      BlockCache_Set [2] [0],
      Queue_Done ''file.bin'']"
  by (simp add: scenario_defs worker_defs hashToStringMapKey_eq_iff)

lemma scenario_published_calls:
  "job_calls scenario_index pull_serving scenario_folder ''file.bin'' =
     [Snapshot_acquired,
      BlockCache_Get [1],
      PullBlockBase_call scenario_file scenario_block0 (Inr [0]),
      BlockCache_Set [1] [0],
      BlockCache_Get [2],
      PullBlockBase_call scenario_file scenario_block1 (Inr [0]),
      BlockCache_Set [2] [0],
      UpdateOne_call scenario_file,
      Log_LocalIndexUpdated
        \<lparr>folder = ''default'', items = 1, filenames = [''file.bin''], sequence = 1, version = 1\<rparr>,
      Queue_Done ''file.bin'']"
  by (simp add: scenario_defs worker_defs hashToStringMapKey_eq_iff)

text \<open>
  Claim C1. All-or-nothing publication: if, while a worker processes a job, a block fetch
  fails (a \<^verbatim>\<open>pullBlockBase\<close> call errors, which is exactly when
  \<^verbatim>\<open>GetBlockDataFromCacheOrDownload\<close> returns false), the worker makes no \<^verbatim>\<open>UpdateOne\<close> call
  and logs no \<^verbatim>\<open>LocalIndexUpdated\<close> event for that job, and the index is as it was. So both
  occur only when every block fetch succeeded.
\<close>

theorem all_or_nothing_publication:
  assumes "list_ex is_failed_pull (job_calls ix pull f job)"
  shows "\<not> list_ex is_UpdateOne (job_calls ix pull f job)
     \<and> \<not> list_ex is_LocalIndexUpdated (job_calls ix pull f job)
     \<and> fset (process_job ix pull f job) = fset f"
proof (cases rule: process_job_paths [of ix f pull job])
  case (snapshot_error err)
  with assms show ?thesis by simp
next
  case (not_global snap)
  with assms show ?thesis by simp
next
  case (fetch_failed snap fi new)
  with fetch_events_quiet [of new] show ?thesis by simp
next
  case (published snap fi new)
  with assms show ?thesis by simp
qed

theorem all_or_nothing_publication_witness:
  "list_ex is_failed_pull (job_calls scenario_index pull_failing_first scenario_folder ''file.bin'')
   \<and> \<not> list_ex is_UpdateOne
        (job_calls scenario_index pull_failing_first scenario_folder ''file.bin'')
   \<and> \<not> list_ex is_LocalIndexUpdated
        (job_calls scenario_index pull_failing_first scenario_folder ''file.bin'')
   \<and> fset (process_job scenario_index pull_failing_first scenario_folder ''file.bin'')
        = fset scenario_folder"
proof -
  have failed:
    "list_ex is_failed_pull (job_calls scenario_index pull_failing_first scenario_folder ''file.bin'')"
    by (simp add: scenario_failed_calls)
  from all_or_nothing_publication [OF failed] failed show ?thesis by blast
qed

text \<open>
  Claim C6. Whenever a worker publishes a file (its job makes an \<^verbatim>\<open>UpdateOne\<close> call or logs
  a \<^verbatim>\<open>LocalIndexUpdated\<close> event), the job's calls end with the \<^verbatim>\<open>UpdateOne\<close> call, then the
  event, then the deferred \<^verbatim>\<open>Done\<close>, with neither an \<^verbatim>\<open>UpdateOne\<close> nor an event before
  them: the event comes strictly after the \<^verbatim>\<open>UpdateOne\<close>. Its payload is the folder ID,
  \<open>items = 1\<close>, \<open>filenames = [fi.Name]\<close>, and \<open>sequence = version = s\<close>, where \<open>s\<close> is the
  sequence read from the index as the \<^verbatim>\<open>UpdateOne\<close> left it.
\<close>

theorem event_follows_UpdateOne:
  assumes "list_ex is_UpdateOne (job_calls ix pull f job)
           \<or> list_ex is_LocalIndexUpdated (job_calls ix pull f job)"
  shows "\<exists>snap fi pre.
           ix_Snapshot ix (fset f) = Inr snap \<and> ix_GetGlobal ix snap job = Some fi
         \<and> fset (process_job ix pull f job) = ix_UpdateOne ix (fset f) fi
         \<and> job_calls ix pull f job =
             pre @ [UpdateOne_call fi,
                    Log_LocalIndexUpdated
                      \<lparr>folder = ID f, items = 1, filenames = [Name fi],
                       sequence = ix_Sequence ix (fset (process_job ix pull f job)),
                       version = ix_Sequence ix (fset (process_job ix pull f job))\<rparr>,
                    Queue_Done job]
         \<and> \<not> list_ex is_UpdateOne pre \<and> \<not> list_ex is_LocalIndexUpdated pre"
proof (cases rule: process_job_paths [of ix f pull job])
  case (snapshot_error err)
  with assms show ?thesis by simp
next
  case (not_global snap)
  with assms show ?thesis by simp
next
  case (fetch_failed snap fi new)
  with assms fetch_events_quiet [of new] show ?thesis by simp
next
  case (published snap fi new)
  let ?pre = "Snapshot_acquired # new"
  from published fetch_events_quiet [of new]
  have "\<not> list_ex is_UpdateOne ?pre" and "\<not> list_ex is_LocalIndexUpdated ?pre"
    by simp_all
  moreover from published have "job_calls ix pull f job =
      ?pre @ [UpdateOne_call fi,
              Log_LocalIndexUpdated
                \<lparr>folder = ID f, items = 1, filenames = [Name fi],
                 sequence = ix_Sequence ix (fset (process_job ix pull f job)),
                 version = ix_Sequence ix (fset (process_job ix pull f job))\<rparr>,
              Queue_Done job]"
    by simp
  ultimately show ?thesis using published(1,2,7) by blast
qed

theorem event_follows_UpdateOne_witness:
  "(list_ex is_UpdateOne (job_calls scenario_index pull_serving scenario_folder ''file.bin'')
    \<or> list_ex is_LocalIndexUpdated
         (job_calls scenario_index pull_serving scenario_folder ''file.bin''))
   \<and> (\<exists>snap fi pre.
         ix_Snapshot scenario_index (fset scenario_folder) = Inr snap
       \<and> ix_GetGlobal scenario_index snap ''file.bin'' = Some fi
       \<and> fset (process_job scenario_index pull_serving scenario_folder ''file.bin'')
           = ix_UpdateOne scenario_index (fset scenario_folder) fi
       \<and> job_calls scenario_index pull_serving scenario_folder ''file.bin'' =
           pre @ [UpdateOne_call fi,
                  Log_LocalIndexUpdated
                    \<lparr>folder = ID scenario_folder, items = 1, filenames = [Name fi],
                     sequence = ix_Sequence scenario_index
                       (fset (process_job scenario_index pull_serving scenario_folder ''file.bin'')),
                     version = ix_Sequence scenario_index
                       (fset (process_job scenario_index pull_serving scenario_folder ''file.bin''))\<rparr>,
                  Queue_Done ''file.bin'']
       \<and> \<not> list_ex is_UpdateOne pre \<and> \<not> list_ex is_LocalIndexUpdated pre)"
proof -
  have published:
    "list_ex is_UpdateOne (job_calls scenario_index pull_serving scenario_folder ''file.bin'')
     \<or> list_ex is_LocalIndexUpdated
          (job_calls scenario_index pull_serving scenario_folder ''file.bin'')"
    by (simp add: scenario_published_calls)
  from event_follows_UpdateOne [OF published] published show ?thesis by blast
qed

text \<open>
  Claim C8. On every exit path of a job's processing (snapshot error, name absent from the
  global index, block-fetch failure, publication) the last call is \<^verbatim>\<open>Done(job)\<close>, made once;
  the queue is the one before with the job marked done, so the job is not in progress, and
  a job popped from a queue of unique names is absent afterwards. When the name is absent
  from the global index, the job does nothing else: no cache write, no \<^verbatim>\<open>UpdateOne\<close>, no
  event (the calls are the snapshot acquisition and \<^verbatim>\<open>Done\<close> only).
\<close>

theorem job_always_done:
  "(\<exists>pre. job_calls ix pull f job = pre @ [Queue_Done job] \<and> Queue_Done job \<notin> set pre)
   \<and> backgroundDownloadQueue (process_job ix pull f job) = Done (backgroundDownloadQueue f) job
   \<and> state_of (backgroundDownloadQueue (process_job ix pull f job)) job \<noteq> InProgress
   \<and> (distinct (map jobName (queued q0)) \<and> Pop q0 = (backgroundDownloadQueue f, job, True) \<longrightarrow>
        state_of (backgroundDownloadQueue (process_job ix pull f job)) job = Absent)
   \<and> (\<forall>snap. ix_Snapshot ix (fset f) = Inr snap \<and> ix_GetGlobal ix snap job = None \<longrightarrow>
        job_calls ix pull f job = [Snapshot_acquired, Queue_Done job]
        \<and> blockCache (process_job ix pull f job) = blockCache f
        \<and> fset (process_job ix pull f job) = fset f)"
proof (intro conjI impI allI)
  show "\<exists>pre. job_calls ix pull f job = pre @ [Queue_Done job] \<and> Queue_Done job \<notin> set pre"
  proof (cases rule: process_job_paths [of ix f pull job])
    case (snapshot_error err)
    then show ?thesis by simp
  next
    case (not_global snap)
    then show ?thesis by simp
  next
    case (fetch_failed snap fi new)
    with fetch_events_quiet [of new job]
    have "job_calls ix pull f job = (Snapshot_acquired # new) @ [Queue_Done job]"
      and "Queue_Done job \<notin> set (Snapshot_acquired # new)" by simp_all
    then show ?thesis by blast
  next
    case (published snap fi new)
    let ?pre = "Snapshot_acquired # new @
                 [UpdateOne_call fi,
                  Log_LocalIndexUpdated
                    \<lparr>folder = ID f, items = 1, filenames = [Name fi],
                     sequence = ix_Sequence ix (ix_UpdateOne ix (fset f) fi),
                     version = ix_Sequence ix (ix_UpdateOne ix (fset f) fi)\<rparr>]"
    from published fetch_events_quiet [of new job]
    have "job_calls ix pull f job = ?pre @ [Queue_Done job]"
      and "Queue_Done job \<notin> set ?pre" by simp_all
    then show ?thesis by blast
  qed
next
  show "backgroundDownloadQueue (process_job ix pull f job) = Done (backgroundDownloadQueue f) job"
    by (rule process_job_queue)
next
  show "state_of (backgroundDownloadQueue (process_job ix pull f job)) job \<noteq> InProgress"
    by (simp add: process_job_queue Done_def state_of_def)
next
  assume "distinct (map jobName (queued q0)) \<and> Pop q0 = (backgroundDownloadQueue f, job, True)"
  then have d: "distinct (map jobName (queued q0))"
    and p: "Pop q0 = (backgroundDownloadQueue f, job, True)" by simp_all
  have "job \<notin> jobName ` set (queued (backgroundDownloadQueue f))"
  proof (cases "queued q0")
    case Nil
    with p show ?thesis by (simp add: Pop_def)
  next
    case (Cons e es)
    from p have "queued (backgroundDownloadQueue f) = queued (fst (Pop q0))"
      and "job = fst (snd (Pop q0))"
      by simp_all
    with Cons have "queued (backgroundDownloadQueue f) = es" and "job = jobName e"
      by (simp_all add: Pop_def)
    with d Cons show ?thesis by auto
  qed
  then show "state_of (backgroundDownloadQueue (process_job ix pull f job)) job = Absent"
    by (simp add: process_job_queue Done_def state_of_def)
next
  fix snap
  assume "ix_Snapshot ix (fset f) = Inr snap \<and> ix_GetGlobal ix snap job = None"
  then have *: "job_calls ix pull f job = [Snapshot_acquired, Queue_Done job]
     \<and> blockCache (process_job ix pull f job) = blockCache f
     \<and> fset (process_job ix pull f job) = fset f"
    by (cases rule: process_job_paths [of ix f pull job]) simp_all
  from * show "job_calls ix pull f job = [Snapshot_acquired, Queue_Done job]" by simp
  from * show "blockCache (process_job ix pull f job) = blockCache f" by simp
  from * show "fset (process_job ix pull f job) = fset f" by simp
qed

theorem job_always_done_witness:
  "distinct (map jobName (queued scenario_ghost_queue))
   \<and> Pop scenario_ghost_queue = (backgroundDownloadQueue scenario_popped, ''ghost'', True)
   \<and> state_of (backgroundDownloadQueue
         (process_job scenario_index pull_serving scenario_popped ''ghost'')) ''ghost'' = Absent
   \<and> ix_Snapshot scenario_index (fset scenario_popped) = Inr ()
   \<and> ix_GetGlobal scenario_index () ''ghost'' = None
   \<and> job_calls scenario_index pull_serving scenario_popped ''ghost''
        = [Snapshot_acquired, Queue_Done ''ghost'']
   \<and> blockCache (process_job scenario_index pull_serving scenario_popped ''ghost'')
        = blockCache scenario_popped
   \<and> fset (process_job scenario_index pull_serving scenario_popped ''ghost'')
        = fset scenario_popped"
proof -
  have popped: "distinct (map jobName (queued scenario_ghost_queue))
      \<and> Pop scenario_ghost_queue = (backgroundDownloadQueue scenario_popped, ''ghost'', True)"
    by (simp add: scenario_defs Pop_def)
  have gone: "ix_Snapshot scenario_index (fset scenario_popped) = Inr ()
      \<and> ix_GetGlobal scenario_index () ''ghost'' = None"
    by (simp add: scenario_defs)
  note inst = job_always_done
    [of scenario_index pull_serving scenario_popped "''ghost''" scenario_ghost_queue]
  from inst popped have "state_of (backgroundDownloadQueue
         (process_job scenario_index pull_serving scenario_popped ''ghost'')) ''ghost'' = Absent"
    by blast
  moreover from inst gone have
    "job_calls scenario_index pull_serving scenario_popped ''ghost''
        = [Snapshot_acquired, Queue_Done ''ghost'']
     \<and> blockCache (process_job scenario_index pull_serving scenario_popped ''ghost'')
        = blockCache scenario_popped
     \<and> fset (process_job scenario_index pull_serving scenario_popped ''ghost'')
        = fset scenario_popped"
    by blast
  ultimately show ?thesis using popped gone by blast
qed

lemma Get_ok_iff:
  "snd (HashedBlockMapInMemory_Get c h) \<longleftrightarrow> hashToStringMapKey h \<in> dom (blockMap c)"
  by (auto simp: HashedBlockMapInMemory_Get_def split: option.splits)

lemma GetBlockDataFromCacheOrDownload_cached:
  assumes "GetBlockDataFromCacheOrDownload pull f snap fi b = (f', data, ok)"
    and "trace f' = trace f @ new"
  shows "dom (blockMap (blockCache f)) \<subseteq> dom (blockMap (blockCache f'))"
    and "snd (HashedBlockMapInMemory_Get (blockCache f') (Hash b))
         \<or> (\<exists>err. PullBlockBase_call fi b (Inl err) \<in> set new)"
  using assms
  by (auto simp: GetBlockDataFromCacheOrDownload_def Let_def HashedBlockMapInMemory_Get_def
        HashedBlockMapInMemory_Set_def split: prod.splits if_splits sum.splits option.splits)

lemma fetch_blocks_cached:
  assumes "fetch_blocks pull f snap fi bis acc = (f', ok)"
    and "trace f' = trace f @ new"
  shows "dom (blockMap (blockCache f)) \<subseteq> dom (blockMap (blockCache f'))
     \<and> (\<forall>b \<in> set bis. snd (HashedBlockMapInMemory_Get (blockCache f') (Hash b))
           \<or> (\<exists>err. PullBlockBase_call fi b (Inl err) \<in> set new))"
  using assms
proof (induction bis arbitrary: f acc new)
  case Nil
  then show ?case by simp
next
  case (Cons b bis)
  obtain f1 d ok1 where step: "GetBlockDataFromCacheOrDownload pull f snap fi b = (f1, d, ok1)"
    by (cases "GetBlockDataFromCacheOrDownload pull f snap fi b") auto
  with Cons.prems have rest: "fetch_blocks pull f1 snap fi bis (acc \<and> ok1) = (f', ok)" by simp
  from GetBlockDataFromCacheOrDownload_trace [OF step] obtain n1 where
    n1: "trace f1 = trace f @ n1" by blast
  from fetch_blocks_trace [OF rest] obtain n2 where
    n2: "trace f' = trace f1 @ n2" by blast
  from n1 n2 Cons.prems(2) have new: "new = n1 @ n2" by simp
  from GetBlockDataFromCacheOrDownload_cached [OF step n1]
  have mono1: "dom (blockMap (blockCache f)) \<subseteq> dom (blockMap (blockCache f1))"
    and here: "snd (HashedBlockMapInMemory_Get (blockCache f1) (Hash b))
               \<or> (\<exists>err. PullBlockBase_call fi b (Inl err) \<in> set n1)"
    by simp_all
  from Cons.IH [OF rest n2]
  have mono2: "dom (blockMap (blockCache f1)) \<subseteq> dom (blockMap (blockCache f'))"
    and later: "\<forall>b \<in> set bis. snd (HashedBlockMapInMemory_Get (blockCache f') (Hash b))
           \<or> (\<exists>err. PullBlockBase_call fi b (Inl err) \<in> set n2)"
    by simp_all
  from here mono2 have "snd (HashedBlockMapInMemory_Get (blockCache f') (Hash b))
               \<or> (\<exists>err. PullBlockBase_call fi b (Inl err) \<in> set n1)"
    by (auto simp: Get_ok_iff)
  moreover from mono1 mono2
  have "dom (blockMap (blockCache f)) \<subseteq> dom (blockMap (blockCache f'))" by (rule subset_trans)
  ultimately show ?case using later new by auto
qed

text \<open>
  Claim C10. A failed block fetch does not stop the iteration: whatever the fetches return,
  the job looks up every block of the file in the cache, once each and in order (one
  \<^verbatim>\<open>GetBlockDataFromCacheOrDownload\<close> call per block), and when the job ends every block of
  the file is in the cache unless its own pull failed.
\<close>

theorem failed_fetch_keeps_iterating:
  assumes "ix_Snapshot ix (fset f) = Inr snap" and "ix_GetGlobal ix snap job = Some fi"
  shows "filter is_BlockCache_Get (job_calls ix pull f job)
           = map (\<lambda>b. BlockCache_Get (Hash b)) (Blocks fi)
     \<and> (\<forall>b \<in> set (Blocks fi).
           snd (HashedBlockMapInMemory_Get (blockCache (process_job ix pull f job)) (Hash b))
           \<or> (\<exists>err. PullBlockBase_call fi b (Inl err) \<in> set (job_calls ix pull f job)))"
proof -
  let ?f1 = "f\<lparr>trace := trace f @ [Snapshot_acquired]\<rparr>"
  obtain f2 all_ok where loop: "fetch_blocks pull ?f1 snap fi (Blocks fi) True = (f2, all_ok)"
    by (cases "fetch_blocks pull ?f1 snap fi (Blocks fi) True") auto
  from fetch_blocks_trace [OF loop] obtain new where
    new: "trace f2 = trace ?f1 @ new" "list_all is_fetch_event new"
         "filter is_BlockCache_Get new = map (\<lambda>b. BlockCache_Get (Hash b)) (Blocks fi)"
    by auto
  from fetch_blocks_cached [OF loop new(1)]
  have cached: "\<forall>b \<in> set (Blocks fi). snd (HashedBlockMapInMemory_Get (blockCache f2) (Hash b))
           \<or> (\<exists>err. PullBlockBase_call fi b (Inl err) \<in> set new)"
    by simp
  have cache: "blockCache (process_job ix pull f job) = blockCache f2"
    using assms loop by (simp add: process_job_def job_body_def Let_def)
  have "\<exists>post. job_calls ix pull f job = Snapshot_acquired # new @ post
          \<and> filter is_BlockCache_Get post = []"
    using assms loop new(1)
    by (cases all_ok) (simp_all add: job_calls_def process_job_def job_body_def Let_def)
  then obtain post where calls: "job_calls ix pull f job = Snapshot_acquired # new @ post"
    and post: "filter is_BlockCache_Get post = []" by blast
  from calls post new(3) have "filter is_BlockCache_Get (job_calls ix pull f job)
           = map (\<lambda>b. BlockCache_Get (Hash b)) (Blocks fi)" by simp
  moreover from cached cache calls
  have "\<forall>b \<in> set (Blocks fi).
           snd (HashedBlockMapInMemory_Get (blockCache (process_job ix pull f job)) (Hash b))
           \<or> (\<exists>err. PullBlockBase_call fi b (Inl err) \<in> set (job_calls ix pull f job))"
    by auto
  ultimately show ?thesis by blast
qed

theorem failed_fetch_keeps_iterating_witness:
  "ix_Snapshot scenario_index (fset scenario_folder) = Inr ()
   \<and> ix_GetGlobal scenario_index () ''file.bin'' = Some scenario_file
   \<and> list_ex is_failed_pull
        (job_calls scenario_index pull_failing_first scenario_folder ''file.bin'')
   \<and> filter is_BlockCache_Get
        (job_calls scenario_index pull_failing_first scenario_folder ''file.bin'')
        = [BlockCache_Get [1], BlockCache_Get [2]]
   \<and> snd (HashedBlockMapInMemory_Get
        (blockCache (process_job scenario_index pull_failing_first scenario_folder ''file.bin''))
        (Hash scenario_block1))"
proof -
  have snap: "ix_Snapshot scenario_index (fset scenario_folder) = Inr ()"
    by (simp add: scenario_defs)
  have glob: "ix_GetGlobal scenario_index () ''file.bin'' = Some scenario_file"
    by (simp add: scenario_defs)
  have failed: "list_ex is_failed_pull
        (job_calls scenario_index pull_failing_first scenario_folder ''file.bin'')"
    by (simp add: scenario_failed_calls)
  note inst = failed_fetch_keeps_iterating [OF snap glob, of pull_failing_first]
  from inst have gets: "filter is_BlockCache_Get
        (job_calls scenario_index pull_failing_first scenario_folder ''file.bin'')
        = [BlockCache_Get [1], BlockCache_Get [2]]"
    by (simp add: scenario_file_def scenario_block0_def scenario_block1_def)
  have "scenario_block1 \<in> set (Blocks scenario_file)" by (simp add: scenario_file_def)
  with inst have "snd (HashedBlockMapInMemory_Get
        (blockCache (process_job scenario_index pull_failing_first scenario_folder ''file.bin''))
        (Hash scenario_block1))
      \<or> (\<exists>err. PullBlockBase_call scenario_file scenario_block1 (Inl err)
            \<in> set (job_calls scenario_index pull_failing_first scenario_folder ''file.bin''))"
    by blast
  moreover have "\<not> (\<exists>err. PullBlockBase_call scenario_file scenario_block1 (Inl err)
            \<in> set (job_calls scenario_index pull_failing_first scenario_folder ''file.bin''))"
    by (simp add: scenario_failed_calls scenario_block0_def scenario_block1_def)
  ultimately have "snd (HashedBlockMapInMemory_Get
        (blockCache (process_job scenario_index pull_failing_first scenario_folder ''file.bin''))
        (Hash scenario_block1))"
    by blast
  with snap glob failed gets show ?thesis by blast
qed

text \<open>
  Claim C2. \<^verbatim>\<open>GetBlockDataFromCacheOrDownload\<close> checks the cache first. On a hit it returns
  the cached bytes with true and its only call is the cache lookup (no \<^verbatim>\<open>pullBlockBase\<close>).
  On a miss it makes one \<^verbatim>\<open>pullBlockBase\<close> call: if that errors it returns \<open>(nil, false)\<close>
  and the cache is unchanged; if it succeeds the pulled bytes are stored under the hash and
  returned with true.
\<close>

theorem cache_through_pull:
  "(\<forall>data. HashedBlockMapInMemory_Get (blockCache f) (Hash b) = (data, True) \<longrightarrow>
       GetBlockDataFromCacheOrDownload pull f snap fi b =
         (f\<lparr>trace := trace f @ [BlockCache_Get (Hash b)]\<rparr>, data, True))
   \<and> (\<not> snd (HashedBlockMapInMemory_Get (blockCache f) (Hash b)) \<longrightarrow>
        (\<forall>err. pull (trace f @ [BlockCache_Get (Hash b)]) snap fi b = Inl err \<longrightarrow>
           GetBlockDataFromCacheOrDownload pull f snap fi b =
             (f\<lparr>trace := trace f @ [BlockCache_Get (Hash b), PullBlockBase_call fi b (Inl err)]\<rparr>,
              [], False))
      \<and> (\<forall>blockData. pull (trace f @ [BlockCache_Get (Hash b)]) snap fi b = Inr blockData \<longrightarrow>
           GetBlockDataFromCacheOrDownload pull f snap fi b =
             (f\<lparr>trace := trace f @ [BlockCache_Get (Hash b),
                                      PullBlockBase_call fi b (Inr blockData),
                                      BlockCache_Set (Hash b) blockData],
                blockCache := HashedBlockMapInMemory_Set (blockCache f) (Hash b) blockData\<rparr>,
              blockData, True)
           \<and> HashedBlockMapInMemory_Get
               (blockCache (fst (GetBlockDataFromCacheOrDownload pull f snap fi b))) (Hash b)
               = (blockData, True)))"
  by (auto simp: GetBlockDataFromCacheOrDownload_def Let_def HashedBlockMapInMemory_Get_def
        HashedBlockMapInMemory_Set_def split: prod.splits option.splits)

theorem cache_through_pull_witness:
  "HashedBlockMapInMemory_Get (blockCache scenario_cached) (Hash scenario_block0) = ([42, 43], True)
   \<and> GetBlockDataFromCacheOrDownload pull_failing_first scenario_cached () scenario_file
        scenario_block0
      = (scenario_cached\<lparr>trace := trace scenario_cached @ [BlockCache_Get (Hash scenario_block0)]\<rparr>,
         [42, 43], True)
   \<and> \<not> snd (HashedBlockMapInMemory_Get (blockCache scenario_folder) (Hash scenario_block0))
   \<and> pull_failing_first (trace scenario_folder @ [BlockCache_Get (Hash scenario_block0)]) ()
        scenario_file scenario_block0 = Inl (ErrorString ''pull failed'')
   \<and> GetBlockDataFromCacheOrDownload pull_failing_first scenario_folder () scenario_file
        scenario_block0
      = (scenario_folder\<lparr>trace := trace scenario_folder @
           [BlockCache_Get (Hash scenario_block0),
            PullBlockBase_call scenario_file scenario_block0 (Inl (ErrorString ''pull failed''))]\<rparr>,
         [], False)
   \<and> \<not> snd (HashedBlockMapInMemory_Get (blockCache scenario_folder) (Hash scenario_block1))
   \<and> pull_failing_first (trace scenario_folder @ [BlockCache_Get (Hash scenario_block1)]) ()
        scenario_file scenario_block1 = Inr [0]
   \<and> GetBlockDataFromCacheOrDownload pull_failing_first scenario_folder () scenario_file
        scenario_block1
      = (scenario_folder\<lparr>trace := trace scenario_folder @
           [BlockCache_Get (Hash scenario_block1),
            PullBlockBase_call scenario_file scenario_block1 (Inr [0]),
            BlockCache_Set (Hash scenario_block1) [0]],
           blockCache :=
             HashedBlockMapInMemory_Set (blockCache scenario_folder) (Hash scenario_block1) [0]\<rparr>,
         [0], True)"
proof -
  have hit: "HashedBlockMapInMemory_Get (blockCache scenario_cached) (Hash scenario_block0)
               = ([42, 43], True)"
    by (simp add: scenario_defs HashedBlockMapInMemory_Get_def HashedBlockMapInMemory_Set_def)
  have miss0: "\<not> snd (HashedBlockMapInMemory_Get (blockCache scenario_folder) (Hash scenario_block0))"
    by (simp add: scenario_defs HashedBlockMapInMemory_Get_def)
  have err0: "pull_failing_first (trace scenario_folder @ [BlockCache_Get (Hash scenario_block0)]) ()
        scenario_file scenario_block0 = Inl (ErrorString ''pull failed'')"
    by (simp add: pull_failing_first_def scenario_block0_def)
  have miss1: "\<not> snd (HashedBlockMapInMemory_Get (blockCache scenario_folder) (Hash scenario_block1))"
    by (simp add: scenario_defs HashedBlockMapInMemory_Get_def)
  have ok1: "pull_failing_first (trace scenario_folder @ [BlockCache_Get (Hash scenario_block1)]) ()
        scenario_file scenario_block1 = Inr [0]"
    by (simp add: pull_failing_first_def scenario_block1_def)
  from cache_through_pull [of scenario_cached scenario_block0 pull_failing_first "()" scenario_file]
    hit
  have c1: "GetBlockDataFromCacheOrDownload pull_failing_first scenario_cached () scenario_file
        scenario_block0
      = (scenario_cached\<lparr>trace := trace scenario_cached @ [BlockCache_Get (Hash scenario_block0)]\<rparr>,
         [42, 43], True)"
    by blast
  from cache_through_pull [of scenario_folder scenario_block0 pull_failing_first "()" scenario_file]
    miss0 err0
  have c2: "GetBlockDataFromCacheOrDownload pull_failing_first scenario_folder () scenario_file
        scenario_block0
      = (scenario_folder\<lparr>trace := trace scenario_folder @
           [BlockCache_Get (Hash scenario_block0),
            PullBlockBase_call scenario_file scenario_block0 (Inl (ErrorString ''pull failed''))]\<rparr>,
         [], False)"
    by blast
  from cache_through_pull [of scenario_folder scenario_block1 pull_failing_first "()" scenario_file]
    miss1 ok1
  have c3: "GetBlockDataFromCacheOrDownload pull_failing_first scenario_folder () scenario_file
        scenario_block1
      = (scenario_folder\<lparr>trace := trace scenario_folder @
           [BlockCache_Get (Hash scenario_block1),
            PullBlockBase_call scenario_file scenario_block1 (Inr [0]),
            BlockCache_Set (Hash scenario_block1) [0]],
           blockCache :=
             HashedBlockMapInMemory_Set (blockCache scenario_folder) (Hash scenario_block1) [0]\<rparr>,
         [0], True)"
    by blast
  from hit c1 miss0 err0 c2 miss1 ok1 c3 show ?thesis by blast
qed

text \<open>
  Claim C9. \<^verbatim>\<open>GetHashBlockData(hash, outBuf)\<close>: on a cache miss it returns
  \<open>(0, ErrNoSuchFile)\<close>; on a hit it returns \<open>(n, nil)\<close> with \<open>n\<close> the minimum of the
  buffer's and the block's lengths, the first \<open>n\<close> bytes of the buffer overwritten. In both
  cases its only call is the cache lookup: no \<^verbatim>\<open>pullBlockBase\<close>, and the cache is unchanged.
\<close>

theorem hash_lookup_never_fetches:
  "(\<not> snd (HashedBlockMapInMemory_Get (blockCache vf) hash) \<longrightarrow>
      GetHashBlockData vf hash response_data =
        (vf\<lparr>trace := trace vf @ [BlockCache_Get hash]\<rparr>, response_data, 0, Some ErrNoSuchFile))
   \<and> (\<forall>data. HashedBlockMapInMemory_Get (blockCache vf) hash = (data, True) \<longrightarrow>
        GetHashBlockData vf hash response_data =
          (vf\<lparr>trace := trace vf @ [BlockCache_Get hash]\<rparr>,
           take (min (length response_data) (length data)) data
             @ drop (min (length response_data) (length data)) response_data,
           int (min (length response_data) (length data)), None))"
  by (auto simp: GetHashBlockData_def Let_def go_copy_def split: prod.splits)

theorem hash_lookup_never_fetches_witness:
  "\<not> snd (HashedBlockMapInMemory_Get (blockCache scenario_folder) [1])
   \<and> GetHashBlockData scenario_folder [1] [7, 7, 7]
      = (scenario_folder\<lparr>trace := trace scenario_folder @ [BlockCache_Get [1]]\<rparr>,
         [7, 7, 7], 0, Some ErrNoSuchFile)
   \<and> HashedBlockMapInMemory_Get (blockCache scenario_cached) [1] = ([42, 43], True)
   \<and> GetHashBlockData scenario_cached [1] [7, 7, 7]
      = (scenario_cached\<lparr>trace := trace scenario_cached @ [BlockCache_Get [1]]\<rparr>,
         [42, 43, 7], 2, None)"
proof -
  have miss: "\<not> snd (HashedBlockMapInMemory_Get (blockCache scenario_folder) [1])"
    by (simp add: scenario_defs HashedBlockMapInMemory_Get_def)
  have hit: "HashedBlockMapInMemory_Get (blockCache scenario_cached) [1] = ([42, 43], True)"
    by (simp add: scenario_defs HashedBlockMapInMemory_Get_def HashedBlockMapInMemory_Set_def)
  from hash_lookup_never_fetches [of scenario_folder "[1]" "[7, 7, 7]"] miss
  have c1: "GetHashBlockData scenario_folder [1] [7, 7, 7]
      = (scenario_folder\<lparr>trace := trace scenario_folder @ [BlockCache_Get [1]]\<rparr>,
         [7, 7, 7], 0, Some ErrNoSuchFile)"
    by blast
  from hash_lookup_never_fetches [of scenario_cached "[1]" "[7, 7, 7]"] hit
  have "GetHashBlockData scenario_cached [1] [7, 7, 7]
      = (scenario_cached\<lparr>trace := trace scenario_cached @ [BlockCache_Get [1]]\<rparr>,
         take (min (length [7, 7, 7 :: byte]) (length [42, 43 :: byte])) [42, 43]
           @ drop (min (length [7, 7, 7 :: byte]) (length [42, 43 :: byte])) [7, 7, 7],
         int (min (length [7, 7, 7 :: byte]) (length [42, 43 :: byte])), None)"
    by blast
  then have c2: "GetHashBlockData scenario_cached [1] [7, 7, 7]
      = (scenario_cached\<lparr>trace := trace scenario_cached @ [BlockCache_Get [1]]\<rparr>,
         [42, 43, 7], 2, None)"
    by simp
  from miss c1 hit c2 show ?thesis by blast
qed

section \<open>Requests, scans and startup\<close>

text \<open>Every queue operation keeps the invariant, so a popped name is never pending as
  well.\<close>

lemma unique_names_preserved:
  "unique_names newJobQueue"
  "unique_names q \<Longrightarrow> unique_names (fst (PushIfNew q filename sz mt))"
  "unique_names q \<Longrightarrow> unique_names (fst (Pop q))"
  "unique_names q \<Longrightarrow> unique_names (Done q filename)"
  "unique_names q \<Longrightarrow> unique_names (SortAccordingToConfig order q)"
proof -
  show "unique_names newJobQueue" by (simp add: unique_names_def newJobQueue_def)
  show "unique_names q \<Longrightarrow> unique_names (fst (PushIfNew q filename sz mt))"
    by (auto simp: unique_names_def PushIfNew_def)
  show "unique_names q \<Longrightarrow> unique_names (fst (Pop q))"
    by (cases "queued q") (auto simp: unique_names_def Pop_def)
  show "unique_names q \<Longrightarrow> unique_names (Done q filename)"
    by (auto simp: unique_names_def Done_def)
  show "unique_names q \<Longrightarrow> unique_names (SortAccordingToConfig order q)"
    by (cases order) (auto simp: unique_names_def distinct_map)
qed

lemma SortAccordingToConfig_names:
  "set (queued (SortAccordingToConfig order q)) = set (queued q)
   \<and> progress (SortAccordingToConfig order q) = progress q"
  by (cases order) simp_all

lemma PushIfNew_new_iff: "snd (PushIfNew q file sz mt) \<longleftrightarrow> state_of q file = Absent"
  by (simp add: PushIfNew_def state_of_def)

lemma try_send_le: "n \<le> 1 \<Longrightarrow> try_send n = 1"
  by (simp add: try_send_def)

lemma RequestBackgroundDownload_pending:
  "backgroundDownloadPending f \<le> 1 \<Longrightarrow>
     backgroundDownloadPending (RequestBackgroundDownload f file sz mt) \<le> 1"
  by (simp add: RequestBackgroundDownload_def PushIfNew_def try_send_def)

lemma request_all_pending:
  "backgroundDownloadPending f \<le> 1 \<Longrightarrow> backgroundDownloadPending (request_all f reqs) \<le> 1"
  unfolding request_all_def
proof (induction reqs arbitrary: f)
  case Nil
  then show ?case by simp
next
  case (Cons r reqs)
  obtain filename sz mt where r: "r = (filename, sz, mt)" by (cases r) auto
  from Cons.prems have "backgroundDownloadPending (RequestBackgroundDownload f filename sz mt) \<le> 1"
    by (rule RequestBackgroundDownload_pending)
  from Cons.IH [OF this] r show ?case by simp
qed

text \<open>
  Claim C7. \<^verbatim>\<open>RequestBackgroundDownload\<close> is idempotent for duplicates. \<^verbatim>\<open>PushIfNew\<close> reports
  "new" exactly when the name is neither pending nor in progress. When it reports "not new"
  the call leaves the service as it was (no sort, no token). When it reports "new" the
  call's whole effect is the queue with the entry added and sorted by the folder's order,
  and a non-blocking send on the wakeup channel, which then holds one token. A second
  request for the same name changes nothing, and after any run of requests the channel
  holds at most one token.
\<close>

theorem request_idempotent_for_duplicates:
  "(snd (PushIfNew (backgroundDownloadQueue f) filename sz mt)
      \<longleftrightarrow> state_of (backgroundDownloadQueue f) filename = Absent)
   \<and> (\<not> snd (PushIfNew (backgroundDownloadQueue f) filename sz mt) \<longrightarrow>
        RequestBackgroundDownload f filename sz mt = f)
   \<and> (snd (PushIfNew (backgroundDownloadQueue f) filename sz mt) \<longrightarrow>
        RequestBackgroundDownload f filename sz mt =
          f\<lparr>backgroundDownloadQueue :=
               SortAccordingToConfig (Order f)
                 (fst (PushIfNew (backgroundDownloadQueue f) filename sz mt)),
            backgroundDownloadPending := try_send (backgroundDownloadPending f)\<rparr>)
   \<and> (snd (PushIfNew (backgroundDownloadQueue f) filename sz mt)
        \<and> backgroundDownloadPending f \<le> 1 \<longrightarrow>
        backgroundDownloadPending (RequestBackgroundDownload f filename sz mt) = 1)
   \<and> RequestBackgroundDownload (RequestBackgroundDownload f filename sz mt) filename sz' mt'
        = RequestBackgroundDownload f filename sz mt
   \<and> (backgroundDownloadPending f \<le> 1 \<longrightarrow>
        backgroundDownloadPending (request_all f reqs) \<le> 1)
   \<and> backgroundDownloadPending (request_all (newVirtualFolder db folderID order) reqs) \<le> 1"
proof (intro conjI impI)
  show "snd (PushIfNew (backgroundDownloadQueue f) filename sz mt)
      \<longleftrightarrow> state_of (backgroundDownloadQueue f) filename = Absent"
    by (rule PushIfNew_new_iff)
next
  assume "\<not> snd (PushIfNew (backgroundDownloadQueue f) filename sz mt)"
  then show "RequestBackgroundDownload f filename sz mt = f"
    by (auto simp: RequestBackgroundDownload_def PushIfNew_def split: if_splits)
next
  assume "snd (PushIfNew (backgroundDownloadQueue f) filename sz mt)"
  then show "RequestBackgroundDownload f filename sz mt =
          f\<lparr>backgroundDownloadQueue :=
               SortAccordingToConfig (Order f)
                 (fst (PushIfNew (backgroundDownloadQueue f) filename sz mt)),
            backgroundDownloadPending := try_send (backgroundDownloadPending f)\<rparr>"
    by (auto simp: RequestBackgroundDownload_def PushIfNew_def split: if_splits)
next
  assume "snd (PushIfNew (backgroundDownloadQueue f) filename sz mt)
        \<and> backgroundDownloadPending f \<le> 1"
  then show "backgroundDownloadPending (RequestBackgroundDownload f filename sz mt) = 1"
    by (auto simp: RequestBackgroundDownload_def PushIfNew_def try_send_def split: if_splits)
next
  let ?f' = "RequestBackgroundDownload f filename sz mt"
  have "state_of (backgroundDownloadQueue ?f') filename \<noteq> Absent"
    by (auto simp: RequestBackgroundDownload_def PushIfNew_def state_of_def
          SortAccordingToConfig_names)
  then have "\<not> snd (PushIfNew (backgroundDownloadQueue ?f') filename sz' mt')"
    by (simp add: PushIfNew_new_iff)
  then show "RequestBackgroundDownload ?f' filename sz' mt' = ?f'"
    by (auto simp: RequestBackgroundDownload_def PushIfNew_def split: if_splits)
next
  assume "backgroundDownloadPending f \<le> 1"
  then show "backgroundDownloadPending (request_all f reqs) \<le> 1"
    by (rule request_all_pending)
next
  show "backgroundDownloadPending (request_all (newVirtualFolder db folderID order) reqs) \<le> 1"
    by (rule request_all_pending) (simp add: newVirtualFolder_def)
qed

theorem request_idempotent_for_duplicates_witness:
  "snd (PushIfNew (backgroundDownloadQueue scenario_folder) ''file.bin'' 2 7)
   \<and> backgroundDownloadPending scenario_folder \<le> 1
   \<and> backgroundDownloadPending (RequestBackgroundDownload scenario_folder ''file.bin'' 2 7) = 1
   \<and> \<not> snd (PushIfNew (backgroundDownloadQueue scenario_requested) ''file.bin'' 3 8)
   \<and> RequestBackgroundDownload scenario_requested ''file.bin'' 3 8 = scenario_requested
   \<and> backgroundDownloadPending
        (request_all scenario_folder [(''file.bin'', 2, 7), (''file.bin'', 3, 8), (''b'', 1, 1)]) \<le> 1"
proof -
  have new: "snd (PushIfNew (backgroundDownloadQueue scenario_folder) ''file.bin'' 2 7)"
    by (simp add: PushIfNew_def scenario_defs)
  have cap: "backgroundDownloadPending scenario_folder \<le> 1"
    by (simp add: scenario_defs)
  have dup: "\<not> snd (PushIfNew (backgroundDownloadQueue scenario_requested) ''file.bin'' 3 8)"
    by (simp add: scenario_requested_def RequestBackgroundDownload_def PushIfNew_def scenario_defs)
  note inst = request_idempotent_for_duplicates
    [where filename = "''file.bin''" and sz' = 3 and mt' = 8
       and reqs = "[(''file.bin'', 2, 7), (''file.bin'', 3, 8), (''b'', 1, 1)]"
       and db = "[] :: FileInfo list" and folderID = "''default''" and order = Alphabetic]
  from inst [where f = scenario_folder and sz = 2 and mt = 7] new cap
  have c1: "backgroundDownloadPending
              (RequestBackgroundDownload scenario_folder ''file.bin'' 2 7) = 1"
    by blast
  from inst [where f = scenario_requested and sz = 3 and mt = 8] dup
  have c2: "RequestBackgroundDownload scenario_requested ''file.bin'' 3 8 = scenario_requested"
    by blast
  from inst [where f = scenario_folder and sz = 2 and mt = 7] cap
  have c3: "backgroundDownloadPending
        (request_all scenario_folder [(''file.bin'', 2, 7), (''file.bin'', 3, 8), (''b'', 1, 1)]) \<le> 1"
    by blast
  from new cap c1 dup c2 c3 show ?thesis by blast
qed

text \<open>
  Claim C3 says that every snapshot the core acquires is released on every exit path, in
  Scan and in the worker's per-job processing. The code does not do so: no job ever calls
  \<^verbatim>\<open>Release\<close>, on any path, and in the scenario both the job and Scan acquire a snapshot
  and return (Scan with a nil error) without releasing it.
\<close>

theorem snapshot_acquired_never_released:
  "Snapshot_released \<notin> set (job_calls ix pull f job)
   \<and> Snapshot_acquired \<in> set (job_calls scenario_index pull_serving scenario_folder ''file.bin'')
   \<and> Snapshot_acquired \<in> set (trace (fst (Scan scenario_index scenario_folder [])))
   \<and> Snapshot_released \<notin> set (trace (fst (Scan scenario_index scenario_folder [])))
   \<and> snd (Scan scenario_index scenario_folder []) = None"
proof (intro conjI)
  show "Snapshot_released \<notin> set (job_calls ix pull f job)"
  proof (cases rule: process_job_paths [of ix f pull job])
    case (snapshot_error err)
    then show ?thesis by simp
  next
    case (not_global snap)
    then show ?thesis by simp
  next
    case (fetch_failed snap fi new)
    with fetch_events_quiet [of new job] show ?thesis by simp
  next
    case (published snap fi new)
    with fetch_events_quiet [of new job] show ?thesis by simp
  qed
next
  show "Snapshot_acquired \<in> set (job_calls scenario_index pull_serving scenario_folder ''file.bin'')"
    by (simp add: scenario_published_calls)
next
  have scan: "trace (fst (Scan scenario_index scenario_folder [])) =
      [Snapshot_acquired, UpdateOne_call scenario_dir]"
    by (simp add: Scan_def Scan_visit_def RequestBackgroundDownload_def PushIfNew_def
          try_send_def scenario_defs)
  from scan show "Snapshot_acquired \<in> set (trace (fst (Scan scenario_index scenario_folder [])))"
    by simp
  from scan show "Snapshot_released \<notin> set (trace (fst (Scan scenario_index scenario_folder [])))"
    by simp
next
  show "snd (Scan scenario_index scenario_folder []) = None"
    by (simp add: Scan_def scenario_defs)
qed

section \<open>Serve: which backend, which mount point\<close>

lemma CutPrefix_append: "CutPrefix (pre @ s) pre = (s, True)"
  by (simp add: CutPrefix_def HasPrefix_def)

lemma CutPrefix_no_prefix: "\<not> HasPrefix s pre \<Longrightarrow> CutPrefix s pre = (s, False)"
  by (simp add: CutPrefix_def)

lemma Split_no_sep: "sep \<noteq> [] \<Longrightarrow> Index s sep = None \<Longrightarrow> Split s sep = [s]"
  by (subst Split.simps) simp

lemma Split_at_sep:
  "sep \<noteq> [] \<Longrightarrow> Index s sep = Some i \<Longrightarrow>
     Split s sep = take i s # Split (drop (i + length sep) s) sep"
  by (subst Split.simps) simp

lemma Split_nonempty: "sep \<noteq> [] \<Longrightarrow> Split s sep \<noteq> []"
  by (subst Split.simps) (simp split: option.splits)

text \<open>When \<open>u\<close> followed by the separator less its last character holds no separator, the
  first separator of \<open>u @ sep @ m\<close> is the one after \<open>u\<close>.\<close>

lemma HasPrefix_butlast:
  assumes "sep \<noteq> []" and "HasPrefix (c # u @ sep @ m) sep"
  shows "HasPrefix (c # u @ butlast sep) sep"
proof -
  obtain x xs where sep: "sep = x # xs" using assms(1) by (cases sep) auto
  from assms(2) have t: "take (length sep) (c # u @ sep @ m) = sep" by (simp add: HasPrefix_def)
  have "take (length xs - length u) ((x # xs) @ m) = take (length xs - length u) (x # xs)"
    by (simp add: take_Cons')
  then have "take (length sep) (c # u @ butlast sep) = take (length sep) (c # u @ sep @ m)"
    by (simp add: sep butlast_conv_take min_def)
  with t show ?thesis by (simp add: HasPrefix_def sep)
qed

lemma Index_first_after:
  assumes "sep \<noteq> []" and "Index (u @ butlast sep) sep = None"
  shows "Index (u @ sep @ m) sep = Some (length u)"
  using assms(2)
proof (induction u)
  case Nil
  from assms(1) obtain x xs where "sep = x # xs" by (cases sep) auto
  then show ?case by (simp add: HasPrefix_def)
next
  case (Cons c u)
  from Cons.prems have no: "\<not> HasPrefix (c # u @ butlast sep) sep"
    and rest: "Index (u @ butlast sep) sep = None"
    by (simp_all split: if_splits)
  from no HasPrefix_butlast [OF assms(1), of c u m] have "\<not> HasPrefix (c # u @ sep @ m) sep"
    by blast
  with Cons.IH [OF rest] show ?case by simp
qed

lemma Split_once:
  assumes "sep \<noteq> []" and "Index (u @ sep @ m) sep = Some (length u)" and "Index m sep = None"
  shows "Split (u @ sep @ m) sep = [u, m]"
  using assms by (simp add: Split_at_sep Split_no_sep)

lemma Split_twice:
  assumes "sep \<noteq> []" and "Index d sep = Some i"
    and "Index (drop (i + length sep) d) sep \<noteq> None"
  shows "length (Split d sep) \<ge> 3"
proof -
  from assms(3) obtain j where j: "Index (drop (i + length sep) d) sep = Some j" by auto
  let ?r = "drop (j + length sep) (drop (i + length sep) d)"
  from Split_nonempty [OF assms(1), of ?r] have "length (Split ?r sep) \<ge> 1"
    by (cases "Split ?r sep") simp_all
  with assms(1,2) j show ?thesis
    by (simp add: Split_at_sep)
qed

text \<open>
  Claim C5, amended. Serve's backend resolution: for a folder path
  \<open>:virtual:<blobURL>:mount_at:<mountPoint>\<close> in which that \<open>:mount_at:\<close> is the first one
  of the descriptor and \<open><mountPoint>\<close> holds none, the blob URL is \<open><blobURL>\<close> and the
  mount path \<open><mountPoint>\<close>; a path with the \<open>:virtual:\<close> prefix whose descriptor holds no
  \<open>:mount_at:\<close>, or more than one, makes Serve return the configuration error; a path
  without the prefix gives \<open>file://<path>_BlobStorage?no_tmp_dir=yes\<close> and \<open><path>R\<close> when
  \<^verbatim>\<open>os.MkdirAll\<close> of \<open><path>_BlobStorage\<close> succeeds.
\<close>

theorem backend_resolution:
  "(Index (blobURL @ '':mount_at:'' @ mountPoint) '':mount_at:'' = Some (length blobURL)
      \<and> Index mountPoint '':mount_at:'' = None \<longrightarrow>
      Serve_resolve mkdirAll ('':virtual:'' @ blobURL @ '':mount_at:'' @ mountPoint)
        = Backend blobURL mountPoint)
   \<and> (Index descriptor '':mount_at:'' = None \<longrightarrow>
        Serve_resolve mkdirAll ('':virtual:'' @ descriptor) = Serve_returns missing_mount_at)
   \<and> (Index descriptor '':mount_at:'' = Some i
        \<and> Index (drop (i + length '':mount_at:'') descriptor) '':mount_at:'' \<noteq> None \<longrightarrow>
        Serve_resolve mkdirAll ('':virtual:'' @ descriptor) = Serve_returns missing_mount_at)
   \<and> (\<not> HasPrefix path '':virtual:'' \<and> mkdirAll (path @ ''_BlobStorage'') = None \<longrightarrow>
        Serve_resolve mkdirAll path
          = Backend (''file://'' @ path @ ''_BlobStorage'' @ ''?no_tmp_dir=yes'') (path @ ''R''))"
proof (intro conjI impI)
  assume "Index (blobURL @ '':mount_at:'' @ mountPoint) '':mount_at:'' = Some (length blobURL)
      \<and> Index mountPoint '':mount_at:'' = None"
  then have "Split (blobURL @ '':mount_at:'' @ mountPoint) '':mount_at:'' = [blobURL, mountPoint]"
    by (intro Split_once) simp_all
  then show "Serve_resolve mkdirAll ('':virtual:'' @ blobURL @ '':mount_at:'' @ mountPoint)
        = Backend blobURL mountPoint"
    by (simp only: Serve_resolve_def CutPrefix_append) simp
next
  assume "Index descriptor '':mount_at:'' = None"
  then have "Split descriptor '':mount_at:'' = [descriptor]"
    by (intro Split_no_sep) simp_all
  then show "Serve_resolve mkdirAll ('':virtual:'' @ descriptor) = Serve_returns missing_mount_at"
    by (simp only: Serve_resolve_def CutPrefix_append) simp
next
  assume "Index descriptor '':mount_at:'' = Some i
        \<and> Index (drop (i + length '':mount_at:'') descriptor) '':mount_at:'' \<noteq> None"
  then have "length (Split descriptor '':mount_at:'') \<ge> 3"
    by (intro Split_twice [where i = i]) simp_all
  then have "length (Split descriptor '':mount_at:'') \<noteq> 2" by simp
  then show "Serve_resolve mkdirAll ('':virtual:'' @ descriptor) = Serve_returns missing_mount_at"
    by (simp only: Serve_resolve_def CutPrefix_append) (simp add: Let_def)
next
  assume "\<not> HasPrefix path '':virtual:'' \<and> mkdirAll (path @ ''_BlobStorage'') = None"
  then show "Serve_resolve mkdirAll path
          = Backend (''file://'' @ path @ ''_BlobStorage'' @ ''?no_tmp_dir=yes'') (path @ ''R'')"
    by (simp add: Serve_resolve_def CutPrefix_no_prefix)
qed

theorem backend_resolution_witness:
  "Index (''mem://x'' @ '':mount_at:'' @ ''/tmp/m'') '':mount_at:'' = Some (length ''mem://x'')
   \<and> Index ''/tmp/m'' '':mount_at:'' = None
   \<and> Serve_resolve mkdir_succeeds '':virtual:mem://x:mount_at:/tmp/m''
        = Backend ''mem://x'' ''/tmp/m''
   \<and> Index ''mem://x'' '':mount_at:'' = None
   \<and> Serve_resolve mkdir_succeeds '':virtual:mem://x'' = Serve_returns missing_mount_at
   \<and> Index ''a:mount_at:b:mount_at:c'' '':mount_at:'' = Some 1
   \<and> Index (drop (1 + length '':mount_at:'') ''a:mount_at:b:mount_at:c'') '':mount_at:'' \<noteq> None
   \<and> Serve_resolve mkdir_succeeds '':virtual:a:mount_at:b:mount_at:c''
        = Serve_returns missing_mount_at
   \<and> \<not> HasPrefix ''/data/f'' '':virtual:''
   \<and> mkdir_succeeds (''/data/f'' @ ''_BlobStorage'') = None
   \<and> Serve_resolve mkdir_succeeds ''/data/f''
        = Backend ''file:///data/f_BlobStorage?no_tmp_dir=yes'' ''/data/fR''"
proof -
  have one: "Index (''mem://x'' @ '':mount_at:'' @ ''/tmp/m'') '':mount_at:''
               = Some (length ''mem://x'')
             \<and> Index ''/tmp/m'' '':mount_at:'' = None"
    by (simp add: HasPrefix_def)
  have none: "Index ''mem://x'' '':mount_at:'' = None"
    by (simp add: HasPrefix_def)
  have two: "Index ''a:mount_at:b:mount_at:c'' '':mount_at:'' = Some 1
      \<and> Index (drop (1 + length '':mount_at:'') ''a:mount_at:b:mount_at:c'') '':mount_at:'' \<noteq> None"
    by (simp add: HasPrefix_def)
  have plain: "\<not> HasPrefix ''/data/f'' '':virtual:''
      \<and> mkdir_succeeds (''/data/f'' @ ''_BlobStorage'') = None"
    by (simp add: HasPrefix_def mkdir_succeeds_def)
  note inst = backend_resolution
    [where blobURL = "''mem://x''" and mountPoint = "''/tmp/m''" and mkdirAll = mkdir_succeeds
       and path = "''/data/f''"]
  from inst [where descriptor = "''mem://x''"] one
  have c1: "Serve_resolve mkdir_succeeds '':virtual:mem://x:mount_at:/tmp/m''
        = Backend ''mem://x'' ''/tmp/m''"
    by simp
  from inst [where descriptor = "''mem://x''"] none
  have c2: "Serve_resolve mkdir_succeeds '':virtual:mem://x'' = Serve_returns missing_mount_at"
    by simp
  from inst [where descriptor = "''a:mount_at:b:mount_at:c''" and i = 1] two
  have c3: "Serve_resolve mkdir_succeeds '':virtual:a:mount_at:b:mount_at:c''
        = Serve_returns missing_mount_at"
    by simp
  from inst [where descriptor = "''mem://x''"] plain
  have c4: "Serve_resolve mkdir_succeeds ''/data/f''
        = Backend ''file:///data/f_BlobStorage?no_tmp_dir=yes'' ''/data/fR''"
    by simp
  from one c1 none c2 two c3 plain c4 show ?thesis by blast
qed

text \<open>
  The claim as first stated fails: \<open>:virtual:a:mount_at:b:mount_at:c\<close> has the form
  \<open>:virtual:<blobURL>:mount_at:<mountPoint>\<close> and is refused, and a path without the prefix
  yields no backend when the directory cannot be made (\<^verbatim>\<open>log.Fatal\<close> ends the process).
\<close>

theorem backend_resolution_counterexample:
  "Serve_resolve mkdir_succeeds ('':virtual:'' @ ''a'' @ '':mount_at:'' @ ''b:mount_at:c'')
     = Serve_returns missing_mount_at
   \<and> Serve_resolve mkdir_succeeds ('':virtual:'' @ ''a'' @ '':mount_at:'' @ ''b:mount_at:c'')
     \<noteq> Backend ''a'' ''b:mount_at:c''
   \<and> Serve_resolve mkdir_denied ''/data/f'' = Process_exits (ErrorString ''permission denied'')
   \<and> Serve_resolve mkdir_denied ''/data/f''
     \<noteq> Backend ''file:///data/f_BlobStorage?no_tmp_dir=yes'' ''/data/fR''"
  by (simp add: Serve_resolve_def CutPrefix_def HasPrefix_def Split.simps mkdir_denied_def)

end
